theory Spec2Isabelle
  imports Complex_Main "HOL-Library.Sublist"
begin

section \<open>JavaScript strings and numbers\<close>

text \<open>
  A JavaScript string is modelled as a \<^typ>\<open>string\<close>: a list of code units, here
  restricted to the code units below 256.  \<open>s.length\<close> is \<^const>\<open>length\<close>.
\<close>

definition nl :: char where
  "nl = CHR 0x0A"

text \<open>The white space that \<open>String.prototype.trim\<close> strips (the part below 256).\<close>

definition isSpace :: "char \<Rightarrow> bool" where
  "isSpace c =
     (c = CHR 0x09 \<or> c = CHR 0x0A \<or> c = CHR 0x0B \<or> c = CHR 0x0C \<or> c = CHR 0x0D
      \<or> c = CHR 0x20 \<or> c = CHR 0xA0)"

definition trim :: "string \<Rightarrow> string" where
  "trim s = rev (dropWhile isSpace (rev (dropWhile isSpace s)))"

definition digitChars :: string where
  "digitChars = ''0123456789''"

definition upperChars :: string where
  "upperChars = ''ABCDEFGHIJKLMNOPQRSTUVWXYZ''"

definition lowerChars :: string where
  "lowerChars = ''abcdefghijklmnopqrstuvwxyz''"

definition isDigit :: "char \<Rightarrow> bool" where
  "isDigit c = (c \<in> set digitChars)"

definition isUpper :: "char \<Rightarrow> bool" where
  "isUpper c = (c \<in> set upperChars)"

definition isLower :: "char \<Rightarrow> bool" where
  "isLower c = (c \<in> set lowerChars)"

text \<open>The class \<open>\w\<close> of a regular expression: \<open>[A-Za-z0-9_]\<close>.\<close>

definition isWordChar :: "char \<Rightarrow> bool" where
  "isWordChar c = (isDigit c \<or> isUpper c \<or> isLower c \<or> c = CHR ''_'')"

text \<open>
  \<open>String.prototype.toLowerCase\<close> on code units below 256: the letters A to Z and the
  Latin-1 capitals 0xC0 to 0xDE (without the multiplication sign 0xD7) go to their small
  letters, which are 32 places up: the bit of value 32 is set.  Every other code unit
  stays.
\<close>

definition latin1Upper :: string where
  "latin1Upper =
     [CHR 0xC0, CHR 0xC1, CHR 0xC2, CHR 0xC3, CHR 0xC4, CHR 0xC5, CHR 0xC6, CHR 0xC7,
      CHR 0xC8, CHR 0xC9, CHR 0xCA, CHR 0xCB, CHR 0xCC, CHR 0xCD, CHR 0xCE, CHR 0xCF,
      CHR 0xD0, CHR 0xD1, CHR 0xD2, CHR 0xD3, CHR 0xD4, CHR 0xD5, CHR 0xD6, CHR 0xD8,
      CHR 0xD9, CHR 0xDA, CHR 0xDB, CHR 0xDC, CHR 0xDD, CHR 0xDE]"

definition lowerChar :: "char \<Rightarrow> char" where
  "lowerChar c =
     (if isUpper c \<or> c \<in> set latin1Upper
      then (case c of Char b0 b1 b2 b3 b4 b5 b6 b7 \<Rightarrow> Char b0 b1 b2 b3 b4 True b6 b7)
      else c)"

definition toLowerCase :: "string \<Rightarrow> string" where
  "toLowerCase s = map lowerChar s"

text \<open>\<open>s.includes(w)\<close>: \<open>w\<close> occurs in \<open>s\<close> as a contiguous run.\<close>

definition includes_str :: "string \<Rightarrow> string \<Rightarrow> bool" where
  "includes_str s w = sublist w s"

text \<open>The decimal digits of a natural number.\<close>

definition digitChar :: "nat \<Rightarrow> char" where
  "digitChar d = ''0123456789'' ! d"

fun showNat :: "nat \<Rightarrow> string" where
  "showNat n = (if n < 10 then [digitChar n] else showNat (n div 10) @ [digitChar (n mod 10)])"

declare showNat.simps [simp del]

text \<open>
  A non-negative integer of the program is a double.  Below \<open>2^53\<close> every natural number
  is one; from there on \<open>toDouble n\<close> is the double nearest to \<open>n\<close>, with 53 significant
  bits and a tie going to the even significand.  A value of \<open>2^1024\<close> or more stands for
  \<open>Infinity\<close>.
\<close>

fun bitLength :: "nat \<Rightarrow> nat" where
  "bitLength n = (if n = 0 then 0 else Suc (bitLength (n div 2)))"

declare bitLength.simps [simp del]

definition toDouble :: "nat \<Rightarrow> nat" where
  "toDouble n =
     (let e = bitLength n - 53; q = n div 2 ^ e; r = n mod 2 ^ e
      in if 2 ^ e < 2 * r \<or> (2 * r = 2 ^ e \<and> odd q) then (q + 1) * 2 ^ e else q * 2 ^ e)"

text \<open>
  \<open>Number::toString\<close> writes the shortest digits that read back as the same double.
  \<open>roundTrips v k\<close> are the numbers with at most \<open>k\<close> significant digits, next below and
  next above \<open>v\<close>, that read back as \<open>v\<close>; \<open>shortest v\<close> is the one of the fewest digits,
  and of two of them the nearer to \<open>v\<close> (the one with the even last digit if they are
  equally near).
\<close>

definition roundTrips :: "nat \<Rightarrow> nat \<Rightarrow> nat list" where
  "roundTrips v k =
     (let unit = 10 ^ (length (showNat v) - k); low = (v div unit) * unit
      in filter (\<lambda>c. toDouble c = v) [low, low + unit])"

definition closest :: "nat \<Rightarrow> nat list \<Rightarrow> nat" where
  "closest v cs =
     (case cs of
        [c] \<Rightarrow> c
      | [low, high] \<Rightarrow>
          if v - low < high - v then low
          else if high - v < v - low then high
          else if even (low div (high - low)) then low else high
      | _ \<Rightarrow> v)"

definition shortest :: "nat \<Rightarrow> nat" where
  "shortest v =
     (case filter (\<lambda>cs. cs \<noteq> []) (map (roundTrips v) [1 ..< Suc (length (showNat v))]) of
        [] \<Rightarrow> v
      | cs # _ \<Rightarrow> closest v cs)"

text \<open>The form \<open>d.ddde+x\<close>: the significant digits, a point behind the first, the exponent.\<close>

definition exponentForm :: "nat \<Rightarrow> string" where
  "exponentForm v =
     (let digits = showNat v;
          significant = rev (dropWhile (\<lambda>c. c = CHR ''0'') (rev digits))
      in hd significant # (if tl significant = [] then [] else CHR ''.'' # tl significant)
         @ ''e+'' @ showNat (length digits - 1))"

text \<open>
  \<open>String(n)\<close> and \<open>`${n}`\<close> for a non-negative integer \<open>n\<close>.  Below \<open>2^53\<close> these are
  all its decimal digits.  From there on they are the shortest digits of the double,
  filled up with zeros, and from \<open>10^21\<close> on the exponent form: \<open>2^60\<close> is written
  \<open>1152921504606847000\<close> and \<open>2 * 10^21\<close> is written \<open>2e+21\<close>.
\<close>

definition numberToString :: "nat \<Rightarrow> string" where
  "numberToString n =
     (if n < 9007199254740992 then showNat n
      else
        let v = toDouble n in
        if 2 ^ 1024 \<le> v then ''Infinity''
        else
          let s = shortest v in
          if length (showNat s) \<le> 21 then showNat s else exponentForm s)"

text \<open>
  The value of a division \<open>a / b\<close> of two non-negative integers.  A finite quotient is
  kept as the exact rational (the double nearest to it compares with the doubles \<open>1.2\<close>
  and \<open>0.6\<close> as the rational does with \<open>6/5\<close> and \<open>3/5\<close>, for every operand below
  \<open>10^15\<close>); a division by zero gives \<open>Infinity\<close>, and \<open>0 / 0\<close> gives \<open>NaN\<close>.
\<close>

datatype jsnum = Num rat | Infinity | NaN

definition jsDiv :: "nat \<Rightarrow> nat \<Rightarrow> jsnum" where
  "jsDiv a b =
     (if b \<noteq> 0 then Num (of_nat a / of_nat b) else if a = 0 then NaN else Infinity)"

text \<open>\<open>x < c\<close> for a finite constant \<open>c\<close>: false for \<open>Infinity\<close> and for \<open>NaN\<close>.\<close>

fun jsLess :: "jsnum \<Rightarrow> rat \<Rightarrow> bool" where
  "jsLess (Num r) c = (r < c)"
| "jsLess Infinity c = False"
| "jsLess NaN c = False"

section \<open>Token estimator\<close>

text \<open>
  \<open>estimateTokens\<close> of \<open>convex/lib/tokenizer.ts\<close>, of the semantic strategy and of the
  compression actions, the same in all three: \<open>Math.ceil(content.length / 4)\<close>, here in
  integer arithmetic.
\<close>

definition estimateTokens :: "string \<Rightarrow> nat" where
  "estimateTokens content = (length content + 3) div 4"

section \<open>Regular expressions\<close>

text \<open>
  The regular expressions of the source, as data, with the matcher they need: character
  classes, the word boundary \<open>\b\<close>, a greedy repetition of a class (\<open>c+\<close> is
  \<open>Rep c 1\<close>, \<open>c{2,}\<close> is \<open>Rep c 2\<close>) and an optional group \<open>(?:...)?\<close>.
\<close>

datatype cclass = Digit | Upper | Lower | LowerOrDigit | WordCh | Lit char

fun inClass :: "cclass \<Rightarrow> char \<Rightarrow> bool" where
  "inClass Digit c = isDigit c"
| "inClass Upper c = isUpper c"
| "inClass Lower c = isLower c"
| "inClass LowerOrDigit c = (isLower c \<or> isDigit c)"
| "inClass WordCh c = isWordChar c"
| "inClass (Lit l) c = (c = l)"

datatype rx = Bnd | One cclass | Rep cclass nat | Opt "rx list"

text \<open>
  A position in the subject: the number of characters read since the start of the match,
  the character before the position, if any, and the text from it on.  \<open>runs c p\<close> lists
  the positions reached from \<open>p\<close> by reading 0, 1, 2, ... characters of the class \<open>c\<close>.
\<close>

type_synonym pos = "nat \<times> char option \<times> string"

fun runs :: "cclass \<Rightarrow> nat \<Rightarrow> char option \<Rightarrow> string \<Rightarrow> pos list" where
  "runs c n b [] = [(n, b, [])]"
| "runs c n b (x # xs) =
     (n, b, x # xs) # (if inClass c x then runs c (Suc n) (Some x) xs else [])"

text \<open>
  \<open>\b\<close> holds at a position when exactly one of the characters before and after it is a
  word character; beyond either end of the text there is none.
\<close>

definition atBoundary :: "char option \<Rightarrow> string \<Rightarrow> bool" where
  "atBoundary b s =
     ((case b of None \<Rightarrow> False | Some c \<Rightarrow> isWordChar c)
      \<noteq> (case s of [] \<Rightarrow> False | x # _ \<Rightarrow> isWordChar x))"

text \<open>
  \<open>matches rs p\<close>: the positions at which a match of the sequence \<open>rs\<close> started at \<open>p\<close>
  can end, in the order in which a backtracking matcher tries them; the first one is the
  match.
\<close>

fun matches :: "rx list \<Rightarrow> pos \<Rightarrow> pos list" where
  "matches [] p = [p]"
| "matches (Bnd # rs) (n, b, s) = (if atBoundary b s then matches rs (n, b, s) else [])"
| "matches (One c # rs) (n, b, s) =
     (case s of [] \<Rightarrow> []
      | x # xs \<Rightarrow> if inClass c x then matches rs (Suc n, Some x, xs) else [])"
| "matches (Rep c k # rs) (n, b, s) = concat (map (matches rs) (rev (drop k (runs c n b s))))"
| "matches (Opt os # rs) p = concat (map (matches rs) (matches os p)) @ matches rs p"

text \<open>The length of the match of \<open>rs\<close> at a position, if there is one.\<close>

definition matchAt :: "rx list \<Rightarrow> char option \<Rightarrow> string \<Rightarrow> nat option" where
  "matchAt rs b s = (case matches rs (0, b, s) of [] \<Rightarrow> None | (n, _, _) # _ \<Rightarrow> Some n)"

text \<open>
  One pass of a global (\<open>/g\<close>) regular expression over a text: the characters outside a
  match as \<open>Plain\<close>, every match as \<open>Matched\<close>.  The search resumes where a match ended
  (\<open>skip\<close> counts the characters of the current match still to pass); an empty match
  moves on by one character.
\<close>

datatype piece = Plain char | Matched string

fun scan :: "rx list \<Rightarrow> nat \<Rightarrow> char option \<Rightarrow> string \<Rightarrow> piece list" where
  "scan rs skip b [] =
     (if skip = 0 \<and> matchAt rs b [] \<noteq> None then [Matched []] else [])"
| "scan rs skip b (x # xs) =
     (if 0 < skip then scan rs (skip - 1) (Some x) xs
      else case matchAt rs b (x # xs) of
             None \<Rightarrow> Plain x # scan rs 0 (Some x) xs
           | Some 0 \<Rightarrow> Matched [] # Plain x # scan rs 0 (Some x) xs
           | Some (Suc n) \<Rightarrow> Matched (take (Suc n) (x # xs)) # scan rs n (Some x) xs)"

text \<open>\<open>s.match(/rs/g) || []\<close>: the matches, in order.\<close>

definition matchAll :: "rx list \<Rightarrow> string \<Rightarrow> string list" where
  "matchAll rs s = concat (map (\<lambda>p. case p of Plain _ \<Rightarrow> [] | Matched m \<Rightarrow> [m]) (scan rs 0 None s))"

text \<open>\<open>s.replace(/rs/g, f)\<close>, with \<open>f\<close> applied to each match.\<close>

definition replaceAll :: "rx list \<Rightarrow> (string \<Rightarrow> string) \<Rightarrow> string \<Rightarrow> string" where
  "replaceAll rs f s =
     concat (map (\<lambda>p. case p of Plain c \<Rightarrow> [c] | Matched m \<Rightarrow> f m) (scan rs 0 None s))"

section \<open>Importance extractor and quality score\<close>

text \<open>
  \<open>extractImportantWords\<close> of the semantic strategy (client side): every number, the
  first 10 capitalised words and the first 5 runs of two or more capitals, in this order.
\<close>

definition numberRx :: "rx list" where
  "numberRx = [Bnd, Rep Digit 1, Opt [One (Lit (CHR ''.'')), Rep Digit 1], Bnd]"

definition properNounRx :: "rx list" where
  "properNounRx = [Bnd, One Upper, Rep Lower 1, Bnd]"

definition technicalRx :: "rx list" where
  "technicalRx = [Bnd, Rep Upper 2, Bnd]"

definition extractImportantWords :: "string \<Rightarrow> string list" where
  "extractImportantWords s =
     (let numbers = matchAll numberRx s;
          properNouns = matchAll properNounRx s;
          technical = matchAll technicalRx s
      in numbers @ take 10 properNouns @ take 5 technical)"

text \<open>
  \<open>estimateQuality\<close> of the semantic strategy: the share of the important words of the
  original that occur, case-insensitively, in the compressed text; 0.8 when the original
  has none.
\<close>

definition estimateQuality :: "string \<Rightarrow> string \<Rightarrow> rat" where
  "estimateQuality original compressed =
     (let importantWords = extractImportantWords original in
      if length importantWords = 0 then 8 / 10
      else
        let compressedLower = toLowerCase compressed;
            preserved = length (filter (\<lambda>word. includes_str compressedLower (toLowerCase word))
                                  importantWords)
        in min 1 (of_nat preserved / of_nat (length importantWords)))"

text \<open>
  \<open>extractImportantWords\<close> of the compression actions (server side): the distinct
  lower-cased alphanumeric words, in the order of their first occurrence, without the stop
  words and the words of at most 3 characters, cut at 50.
\<close>

definition stopWords :: "string list" where
  "stopWords =
     [''the'', ''is'', ''at'', ''which'', ''on'', ''a'', ''an'', ''and'', ''or'', ''but'', ''in'',
      ''with'', ''to'', ''for'', ''of'', ''as'', ''by'', ''from'', ''that'', ''this'', ''these'',
      ''those'', ''it'', ''are'', ''was'', ''were'', ''be'', ''been'', ''being'', ''have'', ''has'',
      ''had'', ''do'', ''does'', ''did'', ''will'', ''would'', ''should'', ''could'', ''may'',
      ''might'', ''can'']"

definition wordRx :: "rx list" where
  "wordRx = [Bnd, Rep LowerOrDigit 1, Bnd]"

text \<open>\<open>[...new Set(words)]\<close>: each word once, at the place of its first occurrence.\<close>

definition uniqueInOrder :: "string list \<Rightarrow> string list" where
  "uniqueInOrder ws = rev (remdups (rev ws))"

definition extractImportantWords_server :: "string \<Rightarrow> string list" where
  "extractImportantWords_server content =
     (let ws = matchAll wordRx (toLowerCase content) in
      take 50 (filter (\<lambda>word. word \<notin> set stopWords \<and> 3 < length word) (uniqueInOrder ws)))"

definition estimateQuality_server :: "string \<Rightarrow> string \<Rightarrow> rat" where
  "estimateQuality_server original compressed =
     (let importantWords = extractImportantWords_server original in
      if length importantWords = 0 then 8 / 10
      else
        let compressedLower = toLowerCase compressed;
            preserved = length (filter (\<lambda>word. includes_str compressedLower (toLowerCase word))
                                  importantWords)
        in min 1 (of_nat preserved / of_nat (length importantWords)))"

section \<open>Prompt builders\<close>

text \<open>\<open>Array.prototype.join\<close>.\<close>

fun joinWith :: "string \<Rightarrow> string list \<Rightarrow> string" where
  "joinWith sep [] = []"
| "joinWith sep [x] = x"
| "joinWith sep (x # y # ys) = x @ sep @ joinWith sep (y # ys)"

text \<open>The template of the semantic strategy, line by line.\<close>

definition SEMANTIC_PROMPT_TEMPLATE :: string where
  "SEMANTIC_PROMPT_TEMPLATE = joinWith [nl]
     [''You are a compression specialist. Compress the following {contentType} content from {originalTokens} tokens to approximately {originalTokens}/{targetRatio} tokens while preserving all critical information.'',
      [],
      ''CRITICAL RULES:'',
      ''- Keep ALL specific names, numbers, dates, and decisions'',
      ''- Maintain chronological order'',
      ''- Preserve technical terms and key concepts'',
      ''- Remove redundant explanations and examples'',
      ''- Keep conclusions and results'',
      ''- Output ONLY the compressed content (no meta-commentary)'',
      ''- If the same phrase is repeated, keep only the first occurrence'',
      [],
      ''CONTENT TO COMPRESS:'',
      ''{content}'',
      [],
      ''COMPRESSED VERSION:'']"

text \<open>The placeholder \<open>\{(\w+)\}\<close>; its group is the match without the two braces.\<close>

definition placeholderRx :: "rx list" where
  "placeholderRx = [One (Lit (CHR 0x7B)), Rep WordCh 1, One (Lit (CHR 0x7D))]"

text \<open>
  \<open>formatPrompt\<close>: every placeholder of the template is replaced by
  \<open>String(vars[key] || "")\<close>, so a number 0 and an unknown key are rendered as the empty
  string.  The token count and the ratio are non-negative integers here.
\<close>

definition numberOrEmpty :: "nat \<Rightarrow> string" where
  "numberOrEmpty n = (if n = 0 then [] else numberToString n)"

definition formatPrompt :: "string \<Rightarrow> nat \<Rightarrow> nat \<Rightarrow> string \<Rightarrow> string" where
  "formatPrompt content originalTokens targetRatio contentType =
     replaceAll placeholderRx
       (\<lambda>m. let key = butlast (tl m) in
          if key = ''content'' then content
          else if key = ''originalTokens'' then numberOrEmpty originalTokens
          else if key = ''targetRatio'' then numberOrEmpty targetRatio
          else if key = ''contentType'' then contentType
          else [])
       SEMANTIC_PROMPT_TEMPLATE"

text \<open>\<open>Math.ceil(a / b)\<close> for non-negative integers and \<open>b > 0\<close>.\<close>

definition ceilDiv :: "nat \<Rightarrow> nat \<Rightarrow> nat" where
  "ceilDiv a b = (a + b - 1) div b"

text \<open>
  \<open>buildCompressionPrompt\<close> of the compression actions; the strategy is not used, the
  target ratio is the constant 2.0, rendered as \<open>2\<close>.
\<close>

definition buildCompressionPrompt :: "string \<Rightarrow> nat \<Rightarrow> string \<Rightarrow> string" where
  "buildCompressionPrompt content originalTokens contentType =
     (let targetRatio = 2;
          targetTokens = ceilDiv originalTokens targetRatio
      in joinWith [nl]
        [''You are a compression specialist. Your task is to compress the following ''
           @ contentType @ '' content while preserving all essential information.'',
         [],
         ''ORIGINAL CONTENT ('' @ numberToString originalTokens @ '' tokens):'',
         ''---'',
         content,
         ''---'',
         [],
         ''COMPRESSION REQUIREMENTS:'',
         ''- Target length: ~'' @ numberToString targetTokens @ '' tokens (''
           @ numberToString targetRatio @ ''x compression ratio)'',
         ''- Preserve all key information, facts, and important details'',
         ''- Remove redundancy, filler words, and verbose explanations'',
         ''- Maintain technical accuracy and specificity'',
         ''- Keep the compressed version coherent and readable'',
         ''- DO NOT add commentary or meta-text (no '' @ [CHR 0x22] @ ''Here'' @ [CHR 0x27]
           @ ''s the compressed version...'' @ [CHR 0x22] @ '' etc.)'',
         [],
         ''COMPRESSED VERSION:''])"

section \<open>Blocks, results and the world\<close>

datatype CompressionStrategy = Semantic | Structural | Statistical

datatype CompressionProvider = Ollama | Openrouter | ClaudeCode

text \<open>
  Every error the compression code raises or reports, with the values its message
  carries.  \<open>ClaudeCodeFailed e\<close> is the message of \<open>e\<close> behind the prefix
  \<open>Claude Code compression failed:\<close> that the actions put before every error of their
  \<open>try\<close> block; \<open>TimedOut\<close> is \<open>Compression timed out after 5 minutes\<close>.
\<close>

datatype failure =
    TooFewTokens nat
  | NoContent
  | RatioBelowMinimum jsnum
  | QualityTooLow rat
  | NotImplemented CompressionStrategy
  | ClaudeCodeViaAction
  | BackendError string
  | BlockNotFound
  | BlocksNotFound
  | CombinedTooFewTokens nat
  | TimedOut
  | EmptyResponse
  | ClaudeCodeFailed failure
  | NoBlocksToMerge
  | InvalidArguments
  | CompressionFailed
  | CompressionActionFailed

text \<open>
  A block document.  \<open>content\<close>, \<open>btype\<close> (the field \<open>type\<close>), \<open>tokens\<close> and
  \<open>isCompressed\<close> are what the compression code reads; the other fields are the
  compression metadata and the zone.
\<close>

record Block =
  content :: string
  btype :: string
  tokens :: "nat option"
  isCompressed :: bool
  originalTokenCount :: "nat option"
  ratio :: "jsnum option"
  compressionStrategy :: "CompressionStrategy option"
  mergedFromCount :: "nat option"
  zone :: string

record CompressionResult =
  success :: bool
  blockId :: "nat option"
  newBlockId :: "nat option"
  error :: "failure option"
  originalTokens :: nat
  compressedTokens :: nat
  compressionRatio :: jsnum
  tokensSaved :: int
  compressedContent :: "string option"
  strategy :: CompressionStrategy
  provider :: "CompressionProvider option"

text \<open>
  The world the code acts on: the block store, the next identifier the store hands out,
  the prompts sent to a backend so far, each with the backend it went to, and the low
  qualities that the actions warned about in the log.
\<close>

record world =
  blocks :: "nat \<rightharpoonup> Block"
  nextId :: nat
  calls :: "(CompressionProvider \<times> string) list"
  warnings :: "rat list"

text \<open>
  What a backend does with a prompt.  A streamed chat either delivers its chunks or throws.
  A run of the local agent delivers its messages or throws, after some milliseconds, or
  never settles.
\<close>

datatype stream = Chunks "string list" | StreamError string

datatype sdk_part = TextPart string | OtherPart

datatype sdk_message = Assistant "sdk_part list option" | ResultMessage | OtherMessage

datatype query_run = Completes nat "sdk_message list" | Throws nat string | Hangs

record backends =
  ollama :: "string \<Rightarrow> stream"
  openrouter :: "string \<Rightarrow> stream"
  claudeQuery :: "string \<Rightarrow> query_run"

definition MIN_TOKENS_FOR_COMPRESSION :: nat where
  "MIN_TOKENS_FOR_COMPRESSION = 100"

definition MIN_COMPRESSION_RATIO :: rat where
  "MIN_COMPRESSION_RATIO = 12 / 10"

text \<open>\<open>block.tokens || estimateTokens(block.content)\<close>: a missing count and a count of 0 are estimated.\<close>

definition tokensOrEstimate :: "Block \<Rightarrow> nat" where
  "tokensOrEstimate block =
     (case tokens block of
        None \<Rightarrow> estimateTokens (content block)
      | Some t \<Rightarrow> if t = 0 then estimateTokens (content block) else t)"

text \<open>\<open>block.tokens || 0\<close>.\<close>

definition tokensOrZero :: "Block \<Rightarrow> nat" where
  "tokensOrZero block = (case tokens block of None \<Rightarrow> 0 | Some t \<Rightarrow> t)"

section \<open>The store mutations\<close>

text \<open>
  Modelled from the spec: the mutation \<open>blocks.compress\<close> of \<open>convex/blocks.ts\<close>, whose
  code is not among the sources.  It patches the block in place: the content becomes the
  compressed text, the block is flagged as compressed and gets the compression metadata;
  an original token count that is already set (and is not 0) is kept, as the guide quotes
  the mutation: \<open>originalTokens: block.originalTokens || args.originalTokens\<close>.  A
  missing block is an error and leaves the store as it is.
\<close>

definition blocks_compress ::
  "world \<Rightarrow> nat \<Rightarrow> string \<Rightarrow> nat \<Rightarrow> nat \<Rightarrow> jsnum \<Rightarrow> CompressionStrategy \<Rightarrow> failure + world" where
  "blocks_compress w blockId' compressedContent' originalTokens' compressedTokens' compressionRatio' strategy' =
     (case blocks w blockId' of
        None \<Rightarrow> Inl BlockNotFound
      | Some block \<Rightarrow>
          Inr (w\<lparr>blocks := (blocks w)(blockId' \<mapsto>
                 block\<lparr>content := compressedContent',
                       tokens := Some compressedTokens',
                       isCompressed := True,
                       originalTokenCount :=
                         Some (case originalTokenCount block of
                                 None \<Rightarrow> originalTokens'
                               | Some v \<Rightarrow> if v = 0 then originalTokens' else v),
                       ratio := Some compressionRatio',
                       compressionStrategy := Some strategy'\<rparr>)\<rparr>))"

text \<open>
  Modelled from the spec: the mutation \<open>blocks.compressAndMerge\<close> of \<open>convex/blocks.ts\<close>,
  whose code is not among the sources.  It inserts exactly one new block with the
  compacted content, \<open>mergedFromCount = N\<close> and the compression metadata, then deletes the
  \<open>N\<close> source blocks, and returns the identifier of the new block.
\<close>

definition blocks_compressAndMerge ::
  "world \<Rightarrow> nat list \<Rightarrow> string \<Rightarrow> nat \<Rightarrow> nat \<Rightarrow> jsnum \<Rightarrow> CompressionStrategy \<Rightarrow> string \<Rightarrow> string
     \<Rightarrow> nat \<times> world" where
  "blocks_compressAndMerge w blockIds compressedContent' originalTokens' compressedTokens' compressionRatio' strategy' targetZone targetType =
     (let new = nextId w;
          merged = \<lparr>content = compressedContent',
                    btype = targetType,
                    tokens = Some compressedTokens',
                    isCompressed = True,
                    originalTokenCount = Some originalTokens',
                    ratio = Some compressionRatio',
                    compressionStrategy = Some strategy',
                    mergedFromCount = Some (length blockIds),
                    zone = targetZone\<rparr>;
          inserted = (blocks w)(new \<mapsto> merged)
      in (new, w\<lparr>blocks := (\<lambda>k. if k \<in> set blockIds then None else inserted k),
                 nextId := Suc new\<rparr>))"

section \<open>The compression service (client side)\<close>

text \<open>
  \<open>compressWithOllama\<close> and \<open>compressWithOpenRouter\<close>: the prompt goes out, the chunks of
  the stream are appended and the whole is trimmed; an error of the stream is thrown on.
\<close>

definition compressWithOllama :: "backends \<Rightarrow> string \<Rightarrow> world \<Rightarrow> (failure + string) \<times> world" where
  "compressWithOllama env prompt w =
     (case ollama env prompt of
        Chunks chunks \<Rightarrow> Inr (trim (concat chunks))
      | StreamError e \<Rightarrow> Inl (BackendError e),
      w\<lparr>calls := calls w @ [(Ollama, prompt)]\<rparr>)"

definition compressWithOpenRouter :: "backends \<Rightarrow> string \<Rightarrow> world \<Rightarrow> (failure + string) \<times> world" where
  "compressWithOpenRouter env prompt w =
     (case openrouter env prompt of
        Chunks chunks \<Rightarrow> Inr (trim (concat chunks))
      | StreamError e \<Rightarrow> Inl (BackendError e),
      w\<lparr>calls := calls w @ [(Openrouter, prompt)]\<rparr>)"

text \<open>
  \<open>compressSemantic\<close>: \<open>options.targetRatio || 2.0\<close> and \<open>options.contentType || "text"\<close>,
  the prompt, and the route to the provider.
\<close>

definition compressSemantic ::
  "backends \<Rightarrow> CompressionProvider \<Rightarrow> string \<Rightarrow> nat \<Rightarrow> string \<Rightarrow> world \<Rightarrow> (failure + string) \<times> world" where
  "compressSemantic env prov c targetRatio contentType w =
     (let targetRatio' = (if targetRatio = 0 then 2 else targetRatio);
          contentType' = (if contentType = [] then ''text'' else contentType);
          prompt = formatPrompt c (estimateTokens c) targetRatio' contentType'
      in case prov of
           Ollama \<Rightarrow> compressWithOllama env prompt w
         | Openrouter \<Rightarrow> compressWithOpenRouter env prompt w
         | ClaudeCode \<Rightarrow> (Inl ClaudeCodeViaAction, w))"

text \<open>\<open>CompressionService.compressContent\<close>.\<close>

definition compressContent ::
  "backends \<Rightarrow> CompressionProvider \<Rightarrow> string \<Rightarrow> CompressionStrategy \<Rightarrow> string \<Rightarrow> world
     \<Rightarrow> (failure + string) \<times> world" where
  "compressContent env prov c strat contentType w =
     (case strat of
        Semantic \<Rightarrow> compressSemantic env prov c 2 contentType w
      | Structural \<Rightarrow> (Inl (NotImplemented Structural), w)
      | Statistical \<Rightarrow> (Inl (NotImplemented Statistical), w))"

text \<open>
  \<open>CompressionService.validateBlock\<close>: the reason for which a block is not valid, if
  there is one.  The token count is checked first.
\<close>

definition validateBlock :: "Block \<Rightarrow> failure option" where
  "validateBlock block =
     (let tokens' = tokensOrEstimate block in
      if tokens' < MIN_TOKENS_FOR_COMPRESSION then Some (TooFewTokens tokens')
      else if content block = [] \<or> length (trim (content block)) = 0 then Some NoContent
      else None)"

text \<open>
  The result object of every unsuccessful return of \<open>compressBlock\<close>: \<open>success: false\<close>,
  the error, the three metrics, \<open>tokensSaved: 0\<close> and the strategy.
\<close>

definition unsuccessful :: "failure \<Rightarrow> nat \<Rightarrow> nat \<Rightarrow> jsnum \<Rightarrow> CompressionStrategy \<Rightarrow> CompressionResult" where
  "unsuccessful e origTokens compTokens r strat =
     \<lparr>success = False, blockId = None, newBlockId = None, error = Some e,
      originalTokens = origTokens, compressedTokens = compTokens, compressionRatio = r,
      tokensSaved = 0, compressedContent = None, strategy = strat, provider = None\<rparr>"

text \<open>
  \<open>CompressionService.compressBlock\<close>, for a service made with the provider \<open>prov\<close>, on
  the block \<open>block\<close> with identifier \<open>bid\<close>.
\<close>

definition compressBlock ::
  "backends \<Rightarrow> CompressionProvider \<Rightarrow> world \<Rightarrow> nat \<Rightarrow> Block \<Rightarrow> CompressionStrategy
     \<Rightarrow> CompressionResult \<times> world" where
  "compressBlock env prov w bid block strat =
     (case validateBlock block of
        Some reason \<Rightarrow> (unsuccessful reason (tokensOrZero block) 0 (Num 1) strat, w)
      | None \<Rightarrow>
         (case compressContent env prov (content block) strat (btype block) w of
            (Inl e, w') \<Rightarrow> (unsuccessful e (tokensOrZero block) 0 (Num 1) strat, w')
          | (Inr compressedContent', w') \<Rightarrow>
              let originalTokens' = tokensOrEstimate block;
                  compressedTokens' = estimateTokens compressedContent';
                  compressionRatio' = jsDiv originalTokens' compressedTokens'
              in if jsLess compressionRatio' MIN_COMPRESSION_RATIO
                 then (unsuccessful (RatioBelowMinimum compressionRatio')
                         originalTokens' compressedTokens' compressionRatio' strat, w')
                 else
                   let quality = estimateQuality (content block) compressedContent'
                   in if quality < 6 / 10
                      then (unsuccessful (QualityTooLow quality)
                              originalTokens' compressedTokens' compressionRatio' strat, w')
                      else (\<lparr>success = True, blockId = Some bid, newBlockId = None,
                              error = None, originalTokens = originalTokens',
                              compressedTokens = compressedTokens',
                              compressionRatio = compressionRatio',
                              tokensSaved = int originalTokens' - int compressedTokens',
                              compressedContent = Some compressedContent',
                              strategy = strat, provider = Some prov\<rparr>, w')))"

text \<open>
  \<open>CompressionService.compressText\<close>: the compressed text with its three metrics; an
  error of \<open>compressContent\<close> is thrown on.
\<close>

definition compressText ::
  "backends \<Rightarrow> CompressionProvider \<Rightarrow> world \<Rightarrow> string \<Rightarrow> CompressionStrategy \<Rightarrow> string
     \<Rightarrow> (failure + string \<times> nat \<times> nat \<times> jsnum) \<times> world" where
  "compressText env prov w c strat contentType =
     (case compressContent env prov c strat contentType w of
        (Inl e, w') \<Rightarrow> (Inl e, w')
      | (Inr compressedContent', w') \<Rightarrow>
          let originalTokens' = estimateTokens c;
              compressedTokens' = estimateTokens compressedContent'
          in (Inr (compressedContent', originalTokens', compressedTokens',
                   jsDiv originalTokens' compressedTokens'), w'))"

section \<open>The compression actions (server side, local agent)\<close>

definition timeoutMs :: nat where
  "timeoutMs = 300000"

text \<open>
  \<open>Promise.race\<close> of the run of the agent against a timer of \<open>timeoutMs\<close> milliseconds:
  the run wins if it settles before the timer fires; otherwise the race is rejected with
  the timeout error.
\<close>

fun settlesBefore :: "nat \<Rightarrow> query_run \<Rightarrow> bool" where
  "settlesBefore ms (Completes t _) = (t < ms)"
| "settlesBefore ms (Throws t _) = (t < ms)"
| "settlesBefore ms Hangs = False"

definition raceWithTimeout :: "query_run \<Rightarrow> failure + sdk_message list" where
  "raceWithTimeout run =
     (if settlesBefore timeoutMs run
      then (case run of
              Completes _ messages \<Rightarrow> Inr messages
            | Throws _ e \<Rightarrow> Inl (BackendError e)
            | Hangs \<Rightarrow> Inl TimedOut)
      else Inl TimedOut)"

text \<open>The text of the assistant messages of a run, appended in order.\<close>

fun partText :: "sdk_part \<Rightarrow> string" where
  "partText (TextPart t) = t"
| "partText OtherPart = []"

fun messageText :: "sdk_message \<Rightarrow> string" where
  "messageText (Assistant (Some parts)) = concat (map partText parts)"
| "messageText (Assistant None) = []"
| "messageText ResultMessage = []"
| "messageText OtherMessage = []"

definition collectText :: "sdk_message list \<Rightarrow> string" where
  "collectText messages = concat (map messageText messages)"

text \<open>
  The part that the two actions share word for word, from the call of the agent to the
  quality check, inside their \<open>try\<close> block: the race, the trimmed text, the empty
  response, the ratio, and the quality of the compressed text against \<open>original\<close>.  A
  quality below 0.6 is a warning in the log, and the action goes on.
\<close>

definition runClaudeCode ::
  "backends \<Rightarrow> string \<Rightarrow> string \<Rightarrow> nat \<Rightarrow> world \<Rightarrow> (failure + string \<times> nat \<times> jsnum) \<times> world" where
  "runClaudeCode env prompt original originalTokens' w =
     (let w' = w\<lparr>calls := calls w @ [(ClaudeCode, prompt)]\<rparr> in
      case raceWithTimeout (claudeQuery env prompt) of
        Inl e \<Rightarrow> (Inl e, w')
      | Inr messages \<Rightarrow>
          let compressedContent' = trim (collectText messages) in
          if compressedContent' = [] then (Inl EmptyResponse, w')
          else
            let compressedTokens' = estimateTokens compressedContent';
                compressionRatio' = jsDiv originalTokens' compressedTokens'
            in if jsLess compressionRatio' (12 / 10)
               then (Inl (RatioBelowMinimum compressionRatio'), w')
               else
                 let quality = estimateQuality_server original compressedContent';
                     w'' = (if quality < 6 / 10
                            then w'\<lparr>warnings := warnings w' @ [quality]\<rparr> else w')
                 in (Inr (compressedContent', compressedTokens', compressionRatio'), w''))"

text \<open>
  \<open>compressWithClaudeCode\<close>.  The block is read from the store; what is thrown before
  the \<open>try\<close> block is thrown as it is, what is thrown inside it is wrapped.  A quality
  below 0.6 does not stop the action.
\<close>

definition compressWithClaudeCode ::
  "backends \<Rightarrow> world \<Rightarrow> nat \<Rightarrow> CompressionStrategy \<Rightarrow> (failure + CompressionResult) \<times> world" where
  "compressWithClaudeCode env w bid strat =
     (case blocks w bid of
        None \<Rightarrow> (Inl BlockNotFound, w)
      | Some block \<Rightarrow>
          let originalTokens' = tokensOrEstimate block in
          if originalTokens' < 100 then (Inl (TooFewTokens originalTokens'), w)
          else if content block = [] \<or> length (trim (content block)) = 0
          then (Inl NoContent, w)
          else
            let prompt = buildCompressionPrompt (content block) originalTokens' (btype block) in
            case runClaudeCode env prompt (content block) originalTokens' w of
              (Inl e, w') \<Rightarrow> (Inl (ClaudeCodeFailed e), w')
            | (Inr (compressedContent', compressedTokens', compressionRatio'), w') \<Rightarrow>
                (case blocks_compress w' bid compressedContent' originalTokens'
                        compressedTokens' compressionRatio' strat of
                   Inl e \<Rightarrow> (Inl (ClaudeCodeFailed e), w')
                 | Inr w'' \<Rightarrow>
                     (Inr \<lparr>success = True, blockId = Some bid, newBlockId = None,
                           error = None, originalTokens = originalTokens',
                           compressedTokens = compressedTokens',
                           compressionRatio = compressionRatio',
                           tokensSaved = int originalTokens' - int compressedTokens',
                           compressedContent = None, strategy = strat,
                           provider = None\<rparr>, w'')))"

text \<open>
  The combined content of a merge: every block under the header
  \<open>## Block i (type)\<close>, the blocks separated by a rule.
\<close>

definition blockSeparator :: string where
  "blockSeparator = [nl, nl] @ ''---'' @ [nl, nl]"

definition combineBlocks :: "Block list \<Rightarrow> string" where
  "combineBlocks bs =
     joinWith blockSeparator
       (map (\<lambda>(index, block).
               ''## Block '' @ numberToString (index + 1) @ '' ('' @ btype block @ '')''
               @ [nl, nl] @ content block)
            (enumerate 0 bs))"

text \<open>
  \<open>compressAndMergeWithClaudeCode\<close>.  It reads the blocks and returns the compressed
  text with its metrics; it writes nothing to the store.
\<close>

definition compressAndMergeWithClaudeCode ::
  "backends \<Rightarrow> world \<Rightarrow> nat list \<Rightarrow> CompressionStrategy \<Rightarrow> (failure + CompressionResult) \<times> world" where
  "compressAndMergeWithClaudeCode env w blockIds strat =
     (let found = map (blocks w) blockIds in
      if None \<in> set found then (Inl BlocksNotFound, w)
      else
        let validBlocks = List.map_filter (\<lambda>b. b) found;
            combinedContent = combineBlocks validBlocks;
            originalTokens' = sum_list (map tokensOrEstimate validBlocks)
        in if originalTokens' < 100 then (Inl (CombinedTooFewTokens originalTokens'), w)
           else
             let prompt = buildCompressionPrompt combinedContent originalTokens' ''merged_blocks'' in
             case runClaudeCode env prompt combinedContent originalTokens' w of
               (Inl e, w') \<Rightarrow> (Inl (ClaudeCodeFailed e), w')
             | (Inr (compressedContent', compressedTokens', compressionRatio'), w') \<Rightarrow>
                 (Inr \<lparr>success = True, blockId = None, newBlockId = None,
                       error = None, originalTokens = originalTokens',
                       compressedTokens = compressedTokens',
                       compressionRatio = compressionRatio',
                       tokensSaved = int originalTokens' - int compressedTokens',
                       compressedContent = Some compressedContent', strategy = strat,
                       provider = None\<rparr>, w'))"

section \<open>The compression hook\<close>

text \<open>
  \<open>compressSingle\<close> of \<open>useCompression\<close>, with the provider that the settings give.  The
  outcome is what the hook stores: \<open>Inl\<close> the error it sets, \<open>Inr\<close> the result it sets.
  With the provider \<open>claude-code\<close> the action does everything, the store included; with
  the other two the service compresses the block the caller holds, and the hook saves a
  successful result with the mutation.
\<close>

definition compressSingle ::
  "backends \<Rightarrow> CompressionProvider \<Rightarrow> world \<Rightarrow> nat \<Rightarrow> Block \<Rightarrow> CompressionStrategy
     \<Rightarrow> (failure + CompressionResult) \<times> world" where
  "compressSingle env prov w bid block strat =
     (if prov = ClaudeCode
      then (case compressWithClaudeCode env w bid strat of
              (Inl e, w') \<Rightarrow> (Inl e, w')
            | (Inr actionResult, w') \<Rightarrow>
                (Inr (actionResult\<lparr>strategy := strat, provider := Some ClaudeCode\<rparr>), w'))
      else
        (case compressBlock env prov w bid block strat of
           (compressionResult, w') \<Rightarrow>
             if \<not> success compressionResult
             then (Inl (case error compressionResult of
                          Some e \<Rightarrow> e | None \<Rightarrow> CompressionFailed), w')
             else
               (case compressedContent compressionResult of
                  None \<Rightarrow> (Inl InvalidArguments, w')
                | Some compressedContent' \<Rightarrow>
                    (case blocks_compress w' bid compressedContent'
                            (originalTokens compressionResult)
                            (compressedTokens compressionResult)
                            (compressionRatio compressionResult) strat of
                       Inl e \<Rightarrow> (Inl e, w')
                     | Inr w'' \<Rightarrow> (Inr compressionResult, w'')))))"

text \<open>
  \<open>compressAndMerge\<close> of \<open>useCompression\<close>, on the blocks the caller holds, each with its
  identifier; \<open>options.strategy || "semantic"\<close> is \<open>strat\<close>.
\<close>

definition compressAndMerge ::
  "backends \<Rightarrow> CompressionProvider \<Rightarrow> world \<Rightarrow> (nat \<times> Block) list \<Rightarrow> CompressionStrategy option
     \<Rightarrow> string \<Rightarrow> string \<Rightarrow> (failure + CompressionResult) \<times> world" where
  "compressAndMerge env prov w bs strategyOption targetZone targetType =
     (if length bs = 0 then (Inl NoBlocksToMerge, w)
      else
        let strat = (case strategyOption of None \<Rightarrow> Semantic | Some s \<Rightarrow> s);
            compressed =
              (if prov = ClaudeCode
               then (case compressAndMergeWithClaudeCode env w (map fst bs) strat of
                       (Inl e, w') \<Rightarrow> (Inl e, w')
                     | (Inr actionResult, w') \<Rightarrow>
                         if \<not> success actionResult then (Inl CompressionActionFailed, w')
                         else (case compressedContent actionResult of
                                 None \<Rightarrow> (Inl InvalidArguments, w')
                               | Some compressedContent' \<Rightarrow>
                                   (Inr (compressedContent',
                                         originalTokens actionResult,
                                         compressedTokens actionResult,
                                         compressionRatio actionResult), w')))
               else compressText env prov w (combineBlocks (map snd bs)) strat ''merged_blocks'')
        in case compressed of
             (Inl e, w') \<Rightarrow> (Inl e, w')
           | (Inr (compressedContent', originalTokens', compressedTokens', compressionRatio'), w') \<Rightarrow>
               if jsLess compressionRatio' (12 / 10)
               then (Inl (RatioBelowMinimum compressionRatio'), w')
               else
                 (case blocks_compressAndMerge w' (map fst bs) compressedContent'
                         originalTokens' compressedTokens' compressionRatio' strat
                         targetZone targetType of
                    (new, w'') \<Rightarrow>
                      (Inr \<lparr>success = True, blockId = None, newBlockId = Some new,
                            error = None, originalTokens = originalTokens',
                            compressedTokens = compressedTokens',
                            compressionRatio = compressionRatio',
                            tokensSaved = int originalTokens' - int compressedTokens',
                            compressedContent = None, strategy = strat,
                            provider = Some prov\<rparr>, w'')))"

section \<open>The shape of the important words\<close>

text \<open>
  The texts that a sequence of a regular expression can match, word boundaries left aside.
\<close>

inductive fits :: "rx list \<Rightarrow> string \<Rightarrow> bool" where
  fits_Nil: "fits [] []"
| fits_Bnd: "fits rs m \<Longrightarrow> fits (Bnd # rs) m"
| fits_One: "inClass c x \<Longrightarrow> fits rs m \<Longrightarrow> fits (One c # rs) (x # m)"
| fits_Rep: "list_all (inClass c) pre \<Longrightarrow> k \<le> length pre \<Longrightarrow> fits rs m
             \<Longrightarrow> fits (Rep c k # rs) (pre @ m)"
| fits_Opt: "fits os m1 \<Longrightarrow> fits rs m2 \<Longrightarrow> fits (Opt os # rs) (m1 @ m2)"
| fits_Skip: "fits rs m \<Longrightarrow> fits (Opt os # rs) m"

inductive_cases fits_NilE: "fits [] m"
inductive_cases fits_BndE: "fits (Bnd # rs) m"
inductive_cases fits_OneE: "fits (One c # rs) m"
inductive_cases fits_RepE: "fits (Rep c k # rs) m"
inductive_cases fits_OptE: "fits (Opt os # rs) m"

text \<open>
  The three kinds of important words in the words of the specification: a numeric literal
  (digits, with an optional point and more digits), a capitalised word (a capital and one
  or more small letters), an acronym (two or more capitals).
\<close>

definition numericLiteral :: "string \<Rightarrow> bool" where
  "numericLiteral m =
     (let whole = takeWhile isDigit m; rest = dropWhile isDigit m
      in whole \<noteq> []
         \<and> (rest = [] \<or> (hd rest = CHR ''.'' \<and> tl rest \<noteq> [] \<and> list_all isDigit (tl rest))))"

definition capitalizedWord :: "string \<Rightarrow> bool" where
  "capitalizedWord m =
     (case m of [] \<Rightarrow> False | x # xs \<Rightarrow> isUpper x \<and> xs \<noteq> [] \<and> list_all isLower xs)"

definition acronym :: "string \<Rightarrow> bool" where
  "acronym m = (2 \<le> length m \<and> list_all isUpper m)"

text \<open>
  What the extractors are compared with, in the words of the specification.  A whole word
  of a text is a maximal run of word characters (letters, digits and the underscore);
  \<open>wholeWords\<close> lists them in the order of the text.
\<close>

function wholeWords :: "string \<Rightarrow> string list" where
  "wholeWords [] = []"
| "wholeWords (x # xs) =
     (if isWordChar x
      then (x # takeWhile isWordChar xs) # wholeWords (dropWhile isWordChar xs)
      else wholeWords xs)"
  by pat_completeness auto

termination wholeWords
  by (relation "measure length") (auto simp: less_Suc_eq_le length_dropWhile_le)

text \<open>
  The numeric literals of a text, in its order: every whole word made of digits only,
  taken together with a point and the whole word behind it when that word follows the
  point at once and is made of digits only.  So \<open>1.2.3\<close> has the literals \<open>1.2\<close> and
  \<open>3\<close>, and \<open>4.5a\<close> has the literal \<open>4\<close>.
\<close>

function numericLiterals :: "string \<Rightarrow> string list" where
  "numericLiterals [] = []"
| "numericLiterals (x # xs) =
     (if \<not> isWordChar x then numericLiterals xs
      else if \<not> list_all isDigit (x # takeWhile isWordChar xs)
      then numericLiterals (dropWhile isWordChar xs)
      else
        (case dropWhile isWordChar xs of
           [] \<Rightarrow> [x # takeWhile isWordChar xs]
         | d # ys \<Rightarrow>
             if d = CHR ''.'' \<and> takeWhile isWordChar ys \<noteq> []
                \<and> list_all isDigit (takeWhile isWordChar ys)
             then (x # takeWhile isWordChar xs @ d # takeWhile isWordChar ys)
                  # numericLiterals (dropWhile isWordChar ys)
             else (x # takeWhile isWordChar xs) # numericLiterals (d # ys)))"
  by pat_completeness auto

termination numericLiterals
proof (relation "measure length")
  fix x xs d ys
  assume "dropWhile isWordChar xs = d # ys"
  then have "Suc (length ys) = length (dropWhile isWordChar xs)" by simp
  also have "\<dots> \<le> length xs" by (rule length_dropWhile_le)
  finally have "Suc (length ys) \<le> length xs" .
  moreover have "length (dropWhile isWordChar ys) \<le> length ys" by (rule length_dropWhile_le)
  ultimately show "(dropWhile isWordChar ys, x # xs) \<in> measure length"
    and "(d # ys, x # xs) \<in> measure length" by simp_all
qed (auto simp: less_Suc_eq_le length_dropWhile_le)

text \<open>
  The place of the first occurrence of a word in a list, and the list with every word
  once, at the place of its first occurrence.
\<close>

definition firstIndex :: "'a list \<Rightarrow> 'a \<Rightarrow> nat" where
  "firstIndex ws w = length (takeWhile (\<lambda>x. x \<noteq> w) ws)"

primrec firstOccurrences :: "'a list \<Rightarrow> 'a list" where
  "firstOccurrences [] = []"
| "firstOccurrences (x # xs) = x # filter (\<lambda>y. y \<noteq> x) (firstOccurrences xs)"

text \<open>
  The whole words of the lower-cased text that are made of small letters and digits only.
\<close>

definition plainWords :: "string \<Rightarrow> string list" where
  "plainWords s = filter (list_all (\<lambda>c. isLower c \<or> isDigit c)) (wholeWords (toLowerCase s))"

section \<open>Sample inputs\<close>

text \<open>
  \<open>"x".repeat(n)\<close>, a block made of a text alone, a store that holds one block, and
  backends that answer every prompt in the same way.
\<close>

definition repeated :: "nat \<Rightarrow> string" where
  "repeated n = replicate n (CHR ''x'')"


definition textBlock :: "string \<Rightarrow> Block" where
  "textBlock c =
     \<lparr>content = c, btype = ''note'', tokens = None, isCompressed = False,
      originalTokenCount = None, ratio = None, compressionStrategy = None,
      mergedFromCount = None, zone = ''WORKING''\<rparr>"

definition storeWith :: "(nat \<times> Block) list \<Rightarrow> world" where
  "storeWith bs =
     \<lparr>blocks = map_of bs, nextId = Suc (fold max (map fst bs) 0), calls = [], warnings = []\<rparr>"

definition constantBackends :: "stream \<Rightarrow> query_run \<Rightarrow> backends" where
  "constantBackends s q = \<lparr>ollama = (\<lambda>_. s), openrouter = (\<lambda>_. s), claudeQuery = (\<lambda>_. q)\<rparr>"

section \<open>Results about the token estimator\<close>

lemma ceiling_quarter: "nat \<lceil>real n / 4\<rceil> = (n + 3) div 4"
proof -
  have "\<lceil>real n / 4\<rceil> = \<lceil>real_of_int (int n) / real_of_int 4\<rceil>" by simp
  also have "\<dots> = - (- int n div 4)" by (rule ceiling_divide_eq_div)
  also have "\<dots> = (int n + 3) div 4" by presburger
  finally have "\<lceil>real n / 4\<rceil> = int ((n + 3) div 4)" by (simp add: zdiv_int)
  then show ?thesis by simp
qed

text \<open>
  C9: the approximate estimator is the ceiling of a quarter of the length, gives 13 tokens
  to 50 characters, and a text repeated twice is estimated at no fewer tokens than the
  text itself.
\<close>

theorem estimateTokens_ceiling_monotone:
  "estimateTokens s = nat \<lceil>real (length s) / 4\<rceil>
   \<and> estimateTokens (replicate 50 c) = 13
   \<and> estimateTokens A \<le> estimateTokens (A @ A)"
  by (simp add: estimateTokens_def ceiling_quarter div_le_mono)

section \<open>Results about the prompt of the semantic strategy\<close>

lemmas char_class_defs =
  isWordChar_def isDigit_def isUpper_def isLower_def digitChars_def upperChars_def lowerChars_def

lemma scan_skip:
  "scan rs (length m) b (m @ s) = scan rs 0 (if m = [] then b else Some (last m)) s"
  by (induction m arbitrary: b) simp_all

lemma matchAt_placeholder_prev: "matchAt placeholderRx b s = matchAt placeholderRx None s"
  by (cases s) (simp_all add: matchAt_def placeholderRx_def)

lemma scan_placeholder_prev: "scan placeholderRx k b s = scan placeholderRx k None s"
proof (induction s arbitrary: k b)
  case Nil
  show ?case by (simp add: matchAt_placeholder_prev [of b])
next
  case (Cons x xs)
  have "scan placeholderRx j (Some x) xs = scan placeholderRx j None xs" for j
    by (rule Cons.IH)
  then show ?case
    by (simp add: matchAt_placeholder_prev [of b] split: option.split nat.split)
qed

lemma replaceAll_plain:
  "x \<noteq> CHR 0x7B \<Longrightarrow> replaceAll placeholderRx f (x # xs) = x # replaceAll placeholderRx f xs"
proof -
  assume "x \<noteq> CHR 0x7B"
  then have "matchAt placeholderRx None (x # xs) = None"
    by (simp add: matchAt_def placeholderRx_def)
  then have "scan placeholderRx 0 None (x # xs) = Plain x # scan placeholderRx 0 None xs"
    by (simp add: scan_placeholder_prev [of 0 "Some x"])
  then show ?thesis by (simp add: replaceAll_def)
qed

lemma replaceAll_key:
  assumes "matchAt placeholderRx None (m @ s) = Some (length m)" and "m \<noteq> []"
  shows "replaceAll placeholderRx f (m @ s) = f m @ replaceAll placeholderRx f s"
proof -
  from assms(2) obtain x m' where m: "m = x # m'" by (cases m) auto
  have "scan placeholderRx 0 None (m @ s)
        = Matched m # scan placeholderRx (length m') (Some x) (m' @ s)"
    using assms(1) by (simp add: m)
  also have "scan placeholderRx (length m') (Some x) (m' @ s) = scan placeholderRx 0 None s"
    by (simp add: scan_skip scan_placeholder_prev [of 0 "Some _"])
  finally show ?thesis by (simp add: replaceAll_def)
qed

lemma replaceAll_contentType:
  "replaceAll placeholderRx f (''{contentType}'' @ s) = f ''{contentType}'' @ replaceAll placeholderRx f s"
  by (rule replaceAll_key)
     (simp_all add: matchAt_def placeholderRx_def char_class_defs)

lemma replaceAll_originalTokens:
  "replaceAll placeholderRx f (''{originalTokens}'' @ s) = f ''{originalTokens}'' @ replaceAll placeholderRx f s"
  by (rule replaceAll_key)
     (simp_all add: matchAt_def placeholderRx_def char_class_defs)

lemma replaceAll_targetRatio:
  "replaceAll placeholderRx f (''{targetRatio}'' @ s) = f ''{targetRatio}'' @ replaceAll placeholderRx f s"
  by (rule replaceAll_key)
     (simp_all add: matchAt_def placeholderRx_def char_class_defs)

lemma replaceAll_content:
  "replaceAll placeholderRx f (''{content}'' @ s) = f ''{content}'' @ replaceAll placeholderRx f s"
  by (rule replaceAll_key)
     (simp_all add: matchAt_def placeholderRx_def char_class_defs)

lemma replaceAll_Nil: "replaceAll placeholderRx f [] = []"
  by (simp add: replaceAll_def matchAt_def placeholderRx_def)

lemma formatPrompt_eq:
  "formatPrompt c n r t =
     joinWith [nl]
       [''You are a compression specialist. Compress the following '' @ t
          @ '' content from '' @ numberOrEmpty n @ '' tokens to approximately ''
          @ numberOrEmpty n @ ''/'' @ numberOrEmpty r
          @ '' tokens while preserving all critical information.'',
        [],
        ''CRITICAL RULES:'',
        ''- Keep ALL specific names, numbers, dates, and decisions'',
        ''- Maintain chronological order'',
        ''- Preserve technical terms and key concepts'',
        ''- Remove redundant explanations and examples'',
        ''- Keep conclusions and results'',
        ''- Output ONLY the compressed content (no meta-commentary)'',
        ''- If the same phrase is repeated, keep only the first occurrence'',
        [],
        ''CONTENT TO COMPRESS:'',
        c,
        [],
        ''COMPRESSED VERSION:'']"
  unfolding formatPrompt_def SEMANTIC_PROMPT_TEMPLATE_def
  by (simp add: nl_def replaceAll_plain replaceAll_Nil
        replaceAll_contentType [simplified append_Cons append_Nil]
        replaceAll_originalTokens [simplified append_Cons append_Nil]
        replaceAll_targetRatio [simplified append_Cons append_Nil]
        replaceAll_content [simplified append_Cons append_Nil])



section \<open>Validation\<close>

lemma x_plain:
  "\<not> isSpace (CHR ''x'')" "\<not> isDigit (CHR ''x'')" "\<not> isUpper (CHR ''x'')" "isLower (CHR ''x'')"
  by (simp_all add: isSpace_def char_class_defs)

lemma trim_repeated: "trim (repeated n) = repeated n"
proof -
  have "dropWhile isSpace (replicate n (CHR ''x'')) = replicate n (CHR ''x'')"
    by (cases n) (simp_all add: x_plain)
  then show ?thesis by (simp add: trim_def repeated_def)
qed

lemma estimateTokens_repeated: "estimateTokens (repeated n) = (n + 3) div 4"
  by (simp add: estimateTokens_def repeated_def)

lemma validateBlock_repeated:
  "validateBlock (textBlock (repeated n)) = (if n < 397 then Some (TooFewTokens ((n + 3) div 4)) else None)"
  by (auto simp: validateBlock_def Let_def tokensOrEstimate_def textBlock_def
      MIN_TOKENS_FOR_COMPRESSION_def estimateTokens_repeated trim_repeated)
     (simp_all add: repeated_def)

lemma trim_Nil_iff: "trim s = [] \<longleftrightarrow> list_all isSpace s"
proof
  assume "trim s = []"
  then have "dropWhile isSpace (rev (dropWhile isSpace s)) = []" by (simp add: trim_def)
  then have all: "\<forall>x\<in>set (dropWhile isSpace s). isSpace x"
    by simp
  have "dropWhile isSpace s = []"
  proof (rule ccontr)
    assume ne: "dropWhile isSpace s \<noteq> []"
    then have "\<not> isSpace (hd (dropWhile isSpace s))" by (rule hd_dropWhile)
    moreover from ne have "hd (dropWhile isSpace s) \<in> set (dropWhile isSpace s)" by simp
    ultimately show False using all by blast
  qed
  then show "list_all isSpace s" by (simp add: list_all_iff)
next
  assume "list_all isSpace s"
  then show "trim s = []" by (auto simp: trim_def list_all_iff dest: set_dropWhileD)
qed

lemma validateBlock_Some_iff:
  "validateBlock b \<noteq> None \<longleftrightarrow> tokensOrEstimate b < 100 \<or> list_all isSpace (content b)"
  by (auto simp: validateBlock_def Let_def MIN_TOKENS_FOR_COMPRESSION_def trim_Nil_iff)

lemma validateBlock_cases:
  "validateBlock b = None \<or> validateBlock b = Some (TooFewTokens (tokensOrEstimate b))
   \<or> validateBlock b = Some NoContent"
  by (simp add: validateBlock_def Let_def)

text \<open>
  C5: a block with fewer than 100 tokens (\<open>block.tokens || estimateTokens(block.content)\<close>),
  or with an empty or white-space-only content, gets an unsuccessful result that carries
  the validation error, and the world is the same afterwards: no prompt went to any
  backend.  So it is for \<open>compressBlock\<close> and, when the caller holds the stored block,
  for \<open>compressSingle\<close> with every provider.
\<close>

theorem small_or_blank_block_rejected_without_backend:
  assumes "tokensOrEstimate b < 100 \<or> list_all isSpace (content b)"
  shows "\<not> success (fst (compressBlock env prov w bid b strat))
         \<and> error (fst (compressBlock env prov w bid b strat))
             \<in> {Some (TooFewTokens (tokensOrEstimate b)), Some NoContent}
         \<and> snd (compressBlock env prov w bid b strat) = w
         \<and> calls (snd (compressBlock env prov w bid b strat)) = calls w
         \<and> (blocks w bid = Some b \<longrightarrow>
              fst (compressSingle env prov w bid b strat)
                \<in> {Inl (TooFewTokens (tokensOrEstimate b)), Inl NoContent}
              \<and> snd (compressSingle env prov w bid b strat) = w)"
proof -
  from assms have v: "validateBlock b \<noteq> None" by (rule validateBlock_Some_iff [THEN iffD2])
  then obtain reason where r: "validateBlock b = Some reason" by auto
  with validateBlock_cases [of b]
  have reason: "reason = TooFewTokens (tokensOrEstimate b) \<or> reason = NoContent" by auto
  have cb: "compressBlock env prov w bid b strat
            = (unsuccessful reason (tokensOrZero b) 0 (Num 1) strat, w)"
    by (simp add: compressBlock_def r)
  have client: "prov \<noteq> ClaudeCode \<Longrightarrow> compressSingle env prov w bid b strat = (Inl reason, w)"
    by (simp add: compressSingle_def cb unsuccessful_def)
  have server: "blocks w bid = Some b \<Longrightarrow> compressWithClaudeCode env w bid strat = (Inl reason, w)"
    using r by (auto simp: compressWithClaudeCode_def validateBlock_def Let_def
        MIN_TOKENS_FOR_COMPRESSION_def split: if_splits)
  have hook: "blocks w bid = Some b \<Longrightarrow> compressSingle env prov w bid b strat = (Inl reason, w)"
    using client server by (cases "prov = ClaudeCode") (simp_all add: compressSingle_def)
  show ?thesis using reason hook by (auto simp: cb unsuccessful_def)
qed


theorem small_or_blank_block_rejected_without_backend_witness:
  "(tokensOrEstimate (textBlock (repeated 50)) < 100
      \<or> list_all isSpace (content (textBlock (repeated 50))))
   \<and> blocks (storeWith [(7, textBlock (repeated 50))]) 7 = Some (textBlock (repeated 50))
   \<and> tokensOrEstimate (textBlock (repeated 50)) = 13
   \<and> \<not> success (fst (compressBlock (constantBackends (Chunks [''short'']) Hangs) Ollama
                     (storeWith [(7, textBlock (repeated 50))]) 7 (textBlock (repeated 50)) Semantic))
   \<and> error (fst (compressBlock (constantBackends (Chunks [''short'']) Hangs) Ollama
                     (storeWith [(7, textBlock (repeated 50))]) 7 (textBlock (repeated 50)) Semantic))
       \<in> {Some (TooFewTokens (tokensOrEstimate (textBlock (repeated 50)))), Some NoContent}
   \<and> snd (compressBlock (constantBackends (Chunks [''short'']) Hangs) Ollama
                     (storeWith [(7, textBlock (repeated 50))]) 7 (textBlock (repeated 50)) Semantic)
       = storeWith [(7, textBlock (repeated 50))]
   \<and> calls (snd (compressBlock (constantBackends (Chunks [''short'']) Hangs) Ollama
                     (storeWith [(7, textBlock (repeated 50))]) 7 (textBlock (repeated 50)) Semantic))
       = calls (storeWith [(7, textBlock (repeated 50))])
   \<and> fst (compressSingle (constantBackends (Chunks [''short'']) Hangs) Ollama
               (storeWith [(7, textBlock (repeated 50))]) 7 (textBlock (repeated 50)) Semantic)
          \<in> {Inl (TooFewTokens (tokensOrEstimate (textBlock (repeated 50)))), Inl NoContent}
   \<and> snd (compressSingle (constantBackends (Chunks [''short'']) Hangs) Ollama
               (storeWith [(7, textBlock (repeated 50))]) 7 (textBlock (repeated 50)) Semantic)
          = storeWith [(7, textBlock (repeated 50))]"
proof -
  have t: "tokensOrEstimate (textBlock (repeated 50)) = 13"
    by (simp add: tokensOrEstimate_def textBlock_def estimateTokens_repeated)
  then have h: "tokensOrEstimate (textBlock (repeated 50)) < 100
                \<or> list_all isSpace (content (textBlock (repeated 50)))"
    by simp
  have s: "blocks (storeWith [(7, textBlock (repeated 50))]) 7 = Some (textBlock (repeated 50))"
    by (simp add: storeWith_def)
  show ?thesis
    using small_or_blank_block_rejected_without_backend
            [OF h, of "constantBackends (Chunks [''short'']) Hangs" Ollama
                "storeWith [(7, textBlock (repeated 50))]" 7 Semantic]
          h s t
    by blast
qed

section \<open>What the compression code leaves alone\<close>

lemma compressContent_frame:
  "compressContent env prov c strat t w = (x, w')
   \<Longrightarrow> blocks w' = blocks w \<and> nextId w' = nextId w \<and> warnings w' = warnings w"
  by (auto simp: compressContent_def compressSemantic_def compressWithOllama_def
        compressWithOpenRouter_def Let_def
      split: CompressionStrategy.splits CompressionProvider.splits)

lemma compressBlock_frame:
  "compressBlock env prov w bid b strat = (r, w')
   \<Longrightarrow> blocks w' = blocks w \<and> nextId w' = nextId w \<and> warnings w' = warnings w"
  by (auto simp: compressBlock_def Let_def
      split: option.splits prod.splits sum.splits if_splits
      dest: compressContent_frame)


lemma runClaudeCode_frame:
  "runClaudeCode env p orig n w = (x, w') \<Longrightarrow> blocks w' = blocks w \<and> nextId w' = nextId w"
  by (auto simp: runClaudeCode_def Let_def split: sum.splits if_splits)


lemma compressWithClaudeCode_failure_frame:
  "compressWithClaudeCode env w bid strat = (Inl e, w')
   \<Longrightarrow> blocks w' = blocks w \<and> nextId w' = nextId w"
  by (auto simp: compressWithClaudeCode_def Let_def
      split: option.splits if_splits prod.splits sum.splits dest: runClaudeCode_frame)

lemma compressSingle_failure_frame:
  "compressSingle env prov w bid b strat = (Inl e, w')
   \<Longrightarrow> blocks w' = blocks w \<and> nextId w' = nextId w"
  by (auto simp: compressSingle_def
      split: if_splits prod.splits sum.splits option.splits
      dest: compressWithClaudeCode_failure_frame compressBlock_frame)




lemma validateBlock_None_iff:
  "validateBlock b = None \<longleftrightarrow> \<not> tokensOrEstimate b < 100 \<and> content b \<noteq> [] \<and> trim (content b) \<noteq> []"
  by (simp add: validateBlock_def Let_def MIN_TOKENS_FOR_COMPRESSION_def)

lemma runClaudeCode_timeout:
  "\<not> settlesBefore timeoutMs (claudeQuery env p)
   \<Longrightarrow> runClaudeCode env p orig n w = (Inl TimedOut, w\<lparr>calls := calls w @ [(ClaudeCode, p)]\<rparr>)"
  by (simp add: runClaudeCode_def raceWithTimeout_def Let_def)

text \<open>
  C2: the timer is of 300000 ms, 5 minutes.  When the run of the local agent has not
  settled before it fires, every attempt that reached the agent ends in the error
  \<open>Claude Code compression failed: Compression timed out after 5 minutes\<close> and not in a
  result: the action on a single block and the hook that calls it, and the action on a
  merge and the hook that calls it.  The store is then as it was: every block reads as
  before, none was inserted and none deleted.
\<close>

theorem agent_deadline_is_timeout_failure:
  "timeoutMs = 5 * 60 * 1000
   \<and> (blocks w bid = Some b \<and> validateBlock b = None
        \<and> \<not> settlesBefore timeoutMs
              (claudeQuery env (buildCompressionPrompt (content b) (tokensOrEstimate b) (btype b)))
       \<longrightarrow> fst (compressWithClaudeCode env w bid strat) = Inl (ClaudeCodeFailed TimedOut)
           \<and> blocks (snd (compressWithClaudeCode env w bid strat)) = blocks w
           \<and> nextId (snd (compressWithClaudeCode env w bid strat)) = nextId w
           \<and> fst (compressSingle env ClaudeCode w bid held strat) = Inl (ClaudeCodeFailed TimedOut)
           \<and> blocks (snd (compressSingle env ClaudeCode w bid held strat)) = blocks w
           \<and> nextId (snd (compressSingle env ClaudeCode w bid held strat)) = nextId w)
   \<and> (None \<notin> set (map (blocks w) (map fst bs))
        \<and> \<not> sum_list (map tokensOrEstimate
                (List.map_filter (\<lambda>b. b) (map (blocks w) (map fst bs)))) < 100
        \<and> \<not> settlesBefore timeoutMs
              (claudeQuery env
                 (buildCompressionPrompt
                    (combineBlocks (List.map_filter (\<lambda>b. b) (map (blocks w) (map fst bs))))
                    (sum_list (map tokensOrEstimate
                       (List.map_filter (\<lambda>b. b) (map (blocks w) (map fst bs)))))
                    ''merged_blocks''))
       \<longrightarrow> fst (compressAndMergeWithClaudeCode env w (map fst bs) strat)
             = Inl (ClaudeCodeFailed TimedOut)
           \<and> blocks (snd (compressAndMergeWithClaudeCode env w (map fst bs) strat)) = blocks w
           \<and> nextId (snd (compressAndMergeWithClaudeCode env w (map fst bs) strat)) = nextId w
           \<and> (bs \<noteq> [] \<longrightarrow>
                fst (compressAndMerge env ClaudeCode w bs strategyOption targetZone targetType)
                  = Inl (ClaudeCodeFailed TimedOut)
                \<and> blocks (snd (compressAndMerge env ClaudeCode w bs strategyOption targetZone
                                 targetType)) = blocks w
                \<and> nextId (snd (compressAndMerge env ClaudeCode w bs strategyOption targetZone
                                 targetType)) = nextId w))"
proof -
  have deadline: "timeoutMs = 5 * 60 * 1000" by (simp add: timeoutMs_def)
  have single:
    "fst (compressWithClaudeCode env w bid strat) = Inl (ClaudeCodeFailed TimedOut)
     \<and> blocks (snd (compressWithClaudeCode env w bid strat)) = blocks w
     \<and> nextId (snd (compressWithClaudeCode env w bid strat)) = nextId w
     \<and> fst (compressSingle env ClaudeCode w bid held strat) = Inl (ClaudeCodeFailed TimedOut)
     \<and> blocks (snd (compressSingle env ClaudeCode w bid held strat)) = blocks w
     \<and> nextId (snd (compressSingle env ClaudeCode w bid held strat)) = nextId w"
    if h: "blocks w bid = Some b" "validateBlock b = None"
      "\<not> settlesBefore timeoutMs
          (claudeQuery env (buildCompressionPrompt (content b) (tokensOrEstimate b) (btype b)))"
  proof -
    from h(2) have v: "\<not> tokensOrEstimate b < 100" "content b \<noteq> []" "trim (content b) \<noteq> []"
      by (simp_all add: validateBlock_None_iff)
    have "compressWithClaudeCode env w bid strat
          = (Inl (ClaudeCodeFailed TimedOut),
             w\<lparr>calls := calls w @ [(ClaudeCode,
                  buildCompressionPrompt (content b) (tokensOrEstimate b) (btype b))]\<rparr>)"
      using h(1) v by (simp add: compressWithClaudeCode_def Let_def runClaudeCode_timeout [OF h(3)])
    then show ?thesis by (simp add: compressSingle_def)
  qed
  define found where "found = map (blocks w) (map fst bs)"
  define valid where "valid = List.map_filter (\<lambda>b. b) found"
  define prompt where
    "prompt = buildCompressionPrompt (combineBlocks valid)
                (sum_list (map tokensOrEstimate valid)) ''merged_blocks''"
  have merge:
    "fst (compressAndMergeWithClaudeCode env w (map fst bs) strat) = Inl (ClaudeCodeFailed TimedOut)
     \<and> blocks (snd (compressAndMergeWithClaudeCode env w (map fst bs) strat)) = blocks w
     \<and> nextId (snd (compressAndMergeWithClaudeCode env w (map fst bs) strat)) = nextId w
     \<and> (bs \<noteq> [] \<longrightarrow>
          fst (compressAndMerge env ClaudeCode w bs strategyOption targetZone targetType)
            = Inl (ClaudeCodeFailed TimedOut)
          \<and> blocks (snd (compressAndMerge env ClaudeCode w bs strategyOption targetZone
                           targetType)) = blocks w
          \<and> nextId (snd (compressAndMerge env ClaudeCode w bs strategyOption targetZone
                           targetType)) = nextId w)"
    if h: "None \<notin> set found" "\<not> sum_list (map tokensOrEstimate valid) < 100"
      "\<not> settlesBefore timeoutMs (claudeQuery env prompt)"
  proof -
    have action: "compressAndMergeWithClaudeCode env w (map fst bs) s
          = (Inl (ClaudeCodeFailed TimedOut), w\<lparr>calls := calls w @ [(ClaudeCode, prompt)]\<rparr>)"
      for s
      using h(1,2) runClaudeCode_timeout [OF h(3)]
      unfolding compressAndMergeWithClaudeCode_def Let_def found_def [symmetric]
        valid_def [symmetric] prompt_def [symmetric]
      by simp
    then show ?thesis by (simp add: compressAndMerge_def Let_def)
  qed
  show ?thesis
    using deadline single merge
    unfolding found_def valid_def prompt_def by blast
qed

theorem agent_deadline_is_timeout_failure_witness:
  "blocks (storeWith [(1, textBlock (repeated 400)), (2, textBlock (repeated 400))]) 1
     = Some (textBlock (repeated 400))
   \<and> validateBlock (textBlock (repeated 400)) = None
   \<and> None \<notin> set (map (blocks (storeWith [(1, textBlock (repeated 400)), (2, textBlock (repeated 400))]))
                   [1, 2])
   \<and> sum_list (map tokensOrEstimate
         (List.map_filter (\<lambda>b. b)
            (map (blocks (storeWith [(1, textBlock (repeated 400)), (2, textBlock (repeated 400))]))
               [1, 2]))) = 200
   \<and> (\<forall>p. \<not> settlesBefore timeoutMs
              (claudeQuery (constantBackends (Chunks [])
                 (Completes 360000 [Assistant (Some [TextPart ''late''])])) p))
   \<and> fst (compressWithClaudeCode
            (constantBackends (Chunks []) (Completes 360000 [Assistant (Some [TextPart ''late''])]))
            (storeWith [(1, textBlock (repeated 400)), (2, textBlock (repeated 400))]) 1 Semantic)
       = Inl (ClaudeCodeFailed TimedOut)
   \<and> fst (compressSingle
            (constantBackends (Chunks []) (Completes 360000 [Assistant (Some [TextPart ''late''])]))
            ClaudeCode (storeWith [(1, textBlock (repeated 400)), (2, textBlock (repeated 400))]) 1
            (textBlock (repeated 400)) Semantic)
       = Inl (ClaudeCodeFailed TimedOut)
   \<and> fst (compressAndMergeWithClaudeCode
            (constantBackends (Chunks []) (Completes 360000 [Assistant (Some [TextPart ''late''])]))
            (storeWith [(1, textBlock (repeated 400)), (2, textBlock (repeated 400))]) [1, 2] Semantic)
       = Inl (ClaudeCodeFailed TimedOut)
   \<and> fst (compressAndMerge
            (constantBackends (Chunks []) (Completes 360000 [Assistant (Some [TextPart ''late''])]))
            ClaudeCode (storeWith [(1, textBlock (repeated 400)), (2, textBlock (repeated 400))])
            [(1, textBlock (repeated 400)), (2, textBlock (repeated 400))] None ''WORKING'' ''note'')
       = Inl (ClaudeCodeFailed TimedOut)
   \<and> blocks (snd (compressAndMerge
            (constantBackends (Chunks []) (Completes 360000 [Assistant (Some [TextPart ''late''])]))
            ClaudeCode (storeWith [(1, textBlock (repeated 400)), (2, textBlock (repeated 400))])
            [(1, textBlock (repeated 400)), (2, textBlock (repeated 400))] None ''WORKING'' ''note''))
       = blocks (storeWith [(1, textBlock (repeated 400)), (2, textBlock (repeated 400))])"
proof -
  let ?env = "constantBackends (Chunks []) (Completes 360000 [Assistant (Some [TextPart ''late''])])"
  let ?b = "textBlock (repeated 400)"
  let ?bs = "[(1, ?b), (2, ?b)]"
  let ?w = "storeWith ?bs"
  have s: "blocks ?w 1 = Some ?b" by (simp add: storeWith_def)
  have v: "validateBlock ?b = None" by (simp add: validateBlock_repeated)
  have f: "map (blocks ?w) (map fst ?bs) = [Some ?b, Some ?b]" by (simp add: storeWith_def)
  have n: "None \<notin> set (map (blocks ?w) (map fst ?bs))" unfolding f by simp
  have m: "List.map_filter (\<lambda>b. b) (map (blocks ?w) (map fst ?bs)) = [?b, ?b]"
    unfolding f by (simp add: List.map_filter_simps)
  have t: "sum_list (map tokensOrEstimate (List.map_filter (\<lambda>b. b) (map (blocks ?w) (map fst ?bs))))
           = 200"
    unfolding m by (simp add: tokensOrEstimate_def textBlock_def estimateTokens_repeated)
  have q: "\<not> settlesBefore timeoutMs (claudeQuery ?env p)" for p
    by (simp add: constantBackends_def timeoutMs_def)
  note inst = agent_deadline_is_timeout_failure
      [of ?w 1 ?b ?env Semantic ?b ?bs None "''WORKING''" "''note''"]
  have single: "fst (compressWithClaudeCode ?env ?w 1 Semantic) = Inl (ClaudeCodeFailed TimedOut)"
    "fst (compressSingle ?env ClaudeCode ?w 1 ?b Semantic) = Inl (ClaudeCodeFailed TimedOut)"
    using inst s v q by blast+
  have merge: "fst (compressAndMergeWithClaudeCode ?env ?w (map fst ?bs) Semantic)
                 = Inl (ClaudeCodeFailed TimedOut)"
    "fst (compressAndMerge ?env ClaudeCode ?w ?bs None ''WORKING'' ''note'')
       = Inl (ClaudeCodeFailed TimedOut)"
    "blocks (snd (compressAndMerge ?env ClaudeCode ?w ?bs None ''WORKING'' ''note'')) = blocks ?w"
    using inst n t q by (simp_all only: not_less) auto
  show ?thesis
    using s v n t q single merge by simp
qed

section \<open>The ratio gate\<close>

lemma jsLess_jsDiv:
  "jsLess (jsDiv a b) (6 / 5) \<longleftrightarrow> b \<noteq> 0 \<and> 5 * a < 6 * b"
proof (cases "b = 0")
  case True
  then show ?thesis by (simp add: jsDiv_def)
next
  case False
  then have "(rat_of_nat a / rat_of_nat b < 6 / 5) = (rat_of_nat (5 * a) < rat_of_nat (6 * b))"
    by (simp add: field_simps)
  also have "\<dots> = (5 * a < 6 * b)" by (simp only: of_nat_less_iff)
  finally show ?thesis using False by (simp add: jsDiv_def)
qed

lemma compressContent_chunks:
  assumes "prov \<noteq> ClaudeCode" and "\<And>p. ollama env p = Chunks cs" and "\<And>p. openrouter env p = Chunks cs"
  shows "compressContent env prov c Semantic t w
         = (Inr (trim (concat cs)),
            w\<lparr>calls := calls w @ [(prov, formatPrompt c (estimateTokens c) 2
                                           (if t = [] then ''text'' else t))]\<rparr>)"
  using assms
  by (cases prov)
     (simp_all add: compressContent_def compressSemantic_def compressWithOllama_def
        compressWithOpenRouter_def Let_def)

lemma blocks_compress_found:
  "blocks w bid = Some b \<Longrightarrow> \<exists>w'. blocks_compress w bid cc n m r strat = Inr w'"
  by (simp add: blocks_compress_def)

lemma collect_one_text: "collectText [Assistant (Some [TextPart t])] = t"
  by (simp add: collectText_def)

section \<open>Texts without important words\<close>

lemma scan_no_match:
  assumes "\<And>b x xs. x \<in> set s \<Longrightarrow> matchAt rs b (x # xs) = None"
      and "\<And>b. matchAt rs b [] = None"
  shows "scan rs 0 b s = map Plain s"
  using assms(1)
proof (induction s arbitrary: b)
  case Nil
  show ?case by (simp add: assms(2))
next
  case (Cons y ys)
  have "matchAt rs b (y # ys) = None" by (rule Cons.prems) simp
  moreover have "scan rs 0 (Some y) ys = map Plain ys"
    by (rule Cons.IH) (simp add: Cons.prems)
  ultimately show ?case by simp
qed

lemma matchAll_no_match:
  assumes "\<And>b x xs. x \<in> set s \<Longrightarrow> matchAt rs b (x # xs) = None"
      and "\<And>b. matchAt rs b [] = None"
  shows "matchAll rs s = []"
  by (simp add: matchAll_def scan_no_match [OF assms])

lemma extractImportantWords_Nil:
  assumes "\<forall>c \<in> set s. \<not> isDigit c \<and> \<not> isUpper c"
  shows "extractImportantWords s = []"
proof -
  have "matchAll numberRx s = []"
    by (rule matchAll_no_match) (use assms in \<open>simp_all add: matchAt_def numberRx_def\<close>)
  moreover have "matchAll properNounRx s = []"
    by (rule matchAll_no_match) (use assms in \<open>simp_all add: matchAt_def properNounRx_def\<close>)
  moreover have "matchAll technicalRx s = []"
    by (rule matchAll_no_match) (use assms in \<open>simp_all add: matchAt_def technicalRx_def\<close>)
  ultimately show ?thesis by (simp add: extractImportantWords_def)
qed

lemma extractImportantWords_repeated: "extractImportantWords (repeated n) = []"
  by (rule extractImportantWords_Nil) (simp add: repeated_def x_plain)

lemma estimateQuality_default:
  "extractImportantWords original = [] \<Longrightarrow> estimateQuality original compressed = 8 / 10"
  by (simp add: estimateQuality_def)

text \<open>
  C10: in the service, for a valid block and a backend (Ollama or OpenRouter) whose
  answer is empty or white space only, the compressed text has 0 tokens, the ratio is
  \<open>Infinity\<close> and the ratio gate does not reject; when the original has no important
  words the result is a success with the empty text as compressed content.
\<close>

theorem blank_backend_output_is_accepted:
  assumes "validateBlock b = None"
      and "prov \<noteq> ClaudeCode"
      and "\<And>p. ollama env p = Chunks cs"
      and "\<And>p. openrouter env p = Chunks cs"
      and "list_all isSpace (concat cs)"
  shows "compressedTokens (fst (compressBlock env prov w bid b Semantic)) = 0
         \<and> jsDiv (tokensOrEstimate b) 0 = Infinity
         \<and> \<not> jsLess (jsDiv (tokensOrEstimate b) 0) MIN_COMPRESSION_RATIO
         \<and> error (fst (compressBlock env prov w bid b Semantic))
             \<noteq> Some (RatioBelowMinimum (jsDiv (tokensOrEstimate b) 0))
         \<and> (extractImportantWords (content b) = [] \<longrightarrow>
              success (fst (compressBlock env prov w bid b Semantic))
              \<and> compressedContent (fst (compressBlock env prov w bid b Semantic)) = Some []
              \<and> compressionRatio (fst (compressBlock env prov w bid b Semantic)) = Infinity)"
proof -
  from assms(5) have t: "trim (concat cs) = []" by (simp add: trim_Nil_iff)
  from assms(1) have n: "tokensOrEstimate b \<noteq> 0" by (simp add: validateBlock_None_iff)
  have c: "compressContent env prov (content b) Semantic (btype b) w
           = (Inr [], w\<lparr>calls := calls w @ [(prov, formatPrompt (content b)
                 (estimateTokens (content b)) 2 (if btype b = [] then ''text'' else btype b))]\<rparr>)"
    using compressContent_chunks [OF assms(2,3,4)] by (simp add: t)
  show ?thesis
    using n
    by (simp add: compressBlock_def assms(1) c Let_def unsuccessful_def jsDiv_def
          estimateTokens_def estimateQuality_default)
qed

theorem blank_backend_output_is_accepted_witness:
  "validateBlock (textBlock (repeated 400)) = None
   \<and> Ollama \<noteq> ClaudeCode
   \<and> list_all isSpace (concat [''  '', [nl]])
   \<and> extractImportantWords (content (textBlock (repeated 400))) = []
   \<and> success (fst (compressBlock (constantBackends (Chunks [''  '', [nl]]) Hangs) Ollama
                    (storeWith [(7, textBlock (repeated 400))]) 7 (textBlock (repeated 400)) Semantic))
   \<and> compressedContent (fst (compressBlock (constantBackends (Chunks [''  '', [nl]]) Hangs) Ollama
                    (storeWith [(7, textBlock (repeated 400))]) 7 (textBlock (repeated 400)) Semantic))
       = Some []
   \<and> compressedTokens (fst (compressBlock (constantBackends (Chunks [''  '', [nl]]) Hangs) Ollama
                    (storeWith [(7, textBlock (repeated 400))]) 7 (textBlock (repeated 400)) Semantic))
       = 0
   \<and> compressionRatio (fst (compressBlock (constantBackends (Chunks [''  '', [nl]]) Hangs) Ollama
                    (storeWith [(7, textBlock (repeated 400))]) 7 (textBlock (repeated 400)) Semantic))
       = Infinity"
proof -
  have v: "validateBlock (textBlock (repeated 400)) = None" by (simp add: validateBlock_repeated)
  have p: "Ollama \<noteq> ClaudeCode" by simp
  have o: "ollama (constantBackends (Chunks [''  '', [nl]]) Hangs) p = Chunks [''  '', [nl]]" for p
    by (simp add: constantBackends_def)
  have r: "openrouter (constantBackends (Chunks [''  '', [nl]]) Hangs) p = Chunks [''  '', [nl]]" for p
    by (simp add: constantBackends_def)
  have l: "list_all isSpace (concat [''  '', [nl]])" by (simp add: isSpace_def nl_def)
  have x: "extractImportantWords (content (textBlock (repeated 400))) = []"
    by (simp add: textBlock_def extractImportantWords_repeated)
  show ?thesis
    using blank_backend_output_is_accepted [OF v p o r l, of "storeWith [(7, textBlock (repeated 400))]" 7]
      v l x
    by simp
qed

section \<open>The effect of a single compression\<close>

text \<open>The block that \<open>blocks.compress\<close> writes in place of \<open>blk\<close>.\<close>

lemma blocks_compress_effect:
  "blocks w bid = Some blk \<Longrightarrow>
   blocks_compress w bid cc n m r st
   = Inr (w\<lparr>blocks := (blocks w)(bid \<mapsto>
            blk\<lparr>content := cc, tokens := Some m, isCompressed := True,
                originalTokenCount :=
                  Some (case originalTokenCount blk of
                          None \<Rightarrow> n | Some v \<Rightarrow> if v = 0 then n else v),
                ratio := Some r, compressionStrategy := Some st\<rparr>)\<rparr>)"
  by (simp add: blocks_compress_def)

lemma compressBlock_chunks:
  assumes "validateBlock b = None"
      and "prov \<noteq> ClaudeCode"
      and "\<And>p. ollama env p = Chunks cs"
      and "\<And>p. openrouter env p = Chunks cs"
      and "\<not> jsLess (jsDiv (tokensOrEstimate b) (estimateTokens (trim (concat cs)))) (6 / 5)"
  shows "compressBlock env prov w bid b Semantic
         = (if estimateQuality (content b) (trim (concat cs)) < 6 / 10
            then unsuccessful (QualityTooLow (estimateQuality (content b) (trim (concat cs))))
                   (tokensOrEstimate b) (estimateTokens (trim (concat cs)))
                   (jsDiv (tokensOrEstimate b) (estimateTokens (trim (concat cs)))) Semantic
            else \<lparr>success = True, blockId = Some bid, newBlockId = None, error = None,
                  originalTokens = tokensOrEstimate b,
                  compressedTokens = estimateTokens (trim (concat cs)),
                  compressionRatio = jsDiv (tokensOrEstimate b) (estimateTokens (trim (concat cs))),
                  tokensSaved = int (tokensOrEstimate b) - int (estimateTokens (trim (concat cs))),
                  compressedContent = Some (trim (concat cs)),
                  strategy = Semantic, provider = Some prov\<rparr>,
            w\<lparr>calls := calls w @ [(prov, formatPrompt (content b) (estimateTokens (content b)) 2
                                           (if btype b = [] then ''text'' else btype b))]\<rparr>)"
  using assms(5)
  by (simp add: compressBlock_def assms(1) compressContent_chunks [OF assms(2,3,4)] Let_def
        MIN_COMPRESSION_RATIO_def)

lemma compressWithClaudeCode_completed:
  assumes "blocks w bid = Some b"
      and "validateBlock b = None"
      and "raceWithTimeout (claudeQuery env
              (buildCompressionPrompt (content b) (tokensOrEstimate b) (btype b))) = Inr msgs"
      and "trim (collectText msgs) \<noteq> []"
      and "\<not> jsLess (jsDiv (tokensOrEstimate b) (estimateTokens (trim (collectText msgs)))) (6 / 5)"
  shows "compressWithClaudeCode env w bid strat
         = (Inr \<lparr>success = True, blockId = Some bid, newBlockId = None, error = None,
                 originalTokens = tokensOrEstimate b,
                 compressedTokens = estimateTokens (trim (collectText msgs)),
                 compressionRatio = jsDiv (tokensOrEstimate b) (estimateTokens (trim (collectText msgs))),
                 tokensSaved = int (tokensOrEstimate b) - int (estimateTokens (trim (collectText msgs))),
                 compressedContent = None, strategy = strat, provider = None\<rparr>,
            w\<lparr>calls := calls w @ [(ClaudeCode,
                     buildCompressionPrompt (content b) (tokensOrEstimate b) (btype b))],
              warnings := (if estimateQuality_server (content b) (trim (collectText msgs)) < 6 / 10
                           then warnings w @ [estimateQuality_server (content b) (trim (collectText msgs))]
                           else warnings w),
              blocks := (blocks w)(bid \<mapsto>
                b\<lparr>content := trim (collectText msgs),
                  tokens := Some (estimateTokens (trim (collectText msgs))),
                  isCompressed := True,
                  originalTokenCount :=
                    Some (case originalTokenCount b of
                            None \<Rightarrow> tokensOrEstimate b
                          | Some v \<Rightarrow> if v = 0 then tokensOrEstimate b else v),
                  ratio := Some (jsDiv (tokensOrEstimate b) (estimateTokens (trim (collectText msgs)))),
                  compressionStrategy := Some strat\<rparr>)\<rparr>)"
proof -
  from assms(2) have v: "\<not> tokensOrEstimate b < 100" "content b \<noteq> []" "trim (content b) \<noteq> []"
    by (simp_all add: validateBlock_None_iff)
  show ?thesis
    using assms(1,3,4,5) v
    by (simp add: compressWithClaudeCode_def runClaudeCode_def Let_def blocks_compress_def)
qed


section \<open>The ratio gate, on every path\<close>

lemma runClaudeCode_settled:
  assumes "raceWithTimeout (claudeQuery env p) = Inr msgs"
      and "trim (collectText msgs) \<noteq> []"
  shows "runClaudeCode env p orig n w
         = (if jsLess (jsDiv n (estimateTokens (trim (collectText msgs)))) (6 / 5)
            then (Inl (RatioBelowMinimum (jsDiv n (estimateTokens (trim (collectText msgs))))),
                  w\<lparr>calls := calls w @ [(ClaudeCode, p)]\<rparr>)
            else (Inr (trim (collectText msgs), estimateTokens (trim (collectText msgs)),
                       jsDiv n (estimateTokens (trim (collectText msgs)))),
                  w\<lparr>calls := calls w @ [(ClaudeCode, p)],
                    warnings :=
                      (if estimateQuality_server orig (trim (collectText msgs)) < 6 / 10
                       then warnings w @ [estimateQuality_server orig (trim (collectText msgs))]
                       else warnings w)\<rparr>))"
  using assms by (simp add: runClaudeCode_def Let_def)

lemma compressWithClaudeCode_settled:
  assumes "blocks w bid = Some b"
      and "validateBlock b = None"
      and "raceWithTimeout (claudeQuery env
              (buildCompressionPrompt (content b) (tokensOrEstimate b) (btype b))) = Inr msgs"
      and "trim (collectText msgs) \<noteq> []"
      and "jsLess (jsDiv (tokensOrEstimate b) (estimateTokens (trim (collectText msgs)))) (6 / 5)"
  shows "compressWithClaudeCode env w bid strat
         = (Inl (ClaudeCodeFailed (RatioBelowMinimum
                   (jsDiv (tokensOrEstimate b) (estimateTokens (trim (collectText msgs)))))),
            w\<lparr>calls := calls w @ [(ClaudeCode,
                 buildCompressionPrompt (content b) (tokensOrEstimate b) (btype b))]\<rparr>)"
proof -
  from assms(2) have v: "\<not> tokensOrEstimate b < 100" "content b \<noteq> []" "trim (content b) \<noteq> []"
    by (simp_all add: validateBlock_None_iff)
  show ?thesis
    using assms(1,5) v
    by (simp add: compressWithClaudeCode_def Let_def runClaudeCode_settled [OF assms(3,4)])
qed

lemma map_filter_Some: "List.map_filter (\<lambda>b. b) (map Some xs) = xs"
  by (induction xs) (simp_all add: List.map_filter_simps)

lemma compressAndMergeWithClaudeCode_found:
  assumes "map (blocks w) ids = map Some stored"
      and "\<not> sum_list (map tokensOrEstimate stored) < 100"
  shows "compressAndMergeWithClaudeCode env w ids strat
         = (case runClaudeCode env
                  (buildCompressionPrompt (combineBlocks stored)
                     (sum_list (map tokensOrEstimate stored)) ''merged_blocks'')
                  (combineBlocks stored) (sum_list (map tokensOrEstimate stored)) w of
              (Inl e, w') \<Rightarrow> (Inl (ClaudeCodeFailed e), w')
            | (Inr (cc, ct, r), w') \<Rightarrow>
                (Inr \<lparr>success = True, blockId = None, newBlockId = None, error = None,
                      originalTokens = sum_list (map tokensOrEstimate stored),
                      compressedTokens = ct, compressionRatio = r,
                      tokensSaved = int (sum_list (map tokensOrEstimate stored)) - int ct,
                      compressedContent = Some cc, strategy = strat, provider = None\<rparr>, w'))"
proof -
  have "None \<notin> set (map Some stored)" by auto
  then show ?thesis
    using assms(2)
    by (simp add: compressAndMergeWithClaudeCode_def Let_def assms(1) map_filter_Some
        del: set_map)
qed

text \<open>
  C3: the minimum ratio is 1.2, and \<open>originalTokens / compressedTokens < 1.2\<close> holds
  exactly when the compressed text has tokens and
  \<open>5 * originalTokens < 6 * compressedTokens\<close>: 1500 tokens against 1250 pass, 1500
  against 1251 do not.  Every attempt that reaches the ratio check is rejected there
  exactly when its ratio is below 1.2:
  \<^item> in the service, on a single block: the result is unsuccessful with the ratio error
    and without compressed content, the hook reports the error, and no block is changed;
    at 1.2 or more the result has no ratio error;
  \<^item> in the action of the local agent, on a single block, for every strategy: the action
    and the hook end in the ratio error and no block is changed; at 1.2 or more the action
    succeeds and the block has the compressed text;
  \<^item> in the merge action of the local agent: the action and the hook end in the ratio
    error, and no block is changed, inserted or deleted; at 1.2 or more both succeed;
  \<^item> in the hook of a merge through the service: the hook ends in the ratio error and no
    block is changed, inserted or deleted; at 1.2 or more it succeeds.
\<close>

theorem ratio_gate_rejects_exactly_below_minimum:
  "(jsLess (jsDiv a c) MIN_COMPRESSION_RATIO \<longleftrightarrow> c \<noteq> 0 \<and> 5 * a < 6 * c)
   \<and> \<not> jsLess (jsDiv 1500 1250) MIN_COMPRESSION_RATIO
   \<and> jsLess (jsDiv 1500 1251) MIN_COMPRESSION_RATIO
   \<and> (validateBlock b = None
        \<and> fst (compressContent env prov (content b) strat (btype b) w) = Inr cc
       \<longrightarrow> (jsLess (jsDiv (tokensOrEstimate b) (estimateTokens cc)) MIN_COMPRESSION_RATIO
             \<longrightarrow> \<not> success (fst (compressBlock env prov w bid b strat))
                 \<and> error (fst (compressBlock env prov w bid b strat))
                     = Some (RatioBelowMinimum (jsDiv (tokensOrEstimate b) (estimateTokens cc)))
                 \<and> compressedContent (fst (compressBlock env prov w bid b strat)) = None
                 \<and> blocks (snd (compressBlock env prov w bid b strat)) = blocks w
                 \<and> fst (compressSingle env prov w bid b strat)
                     = Inl (RatioBelowMinimum (jsDiv (tokensOrEstimate b) (estimateTokens cc)))
                 \<and> blocks (snd (compressSingle env prov w bid b strat)) = blocks w)
           \<and> (\<not> jsLess (jsDiv (tokensOrEstimate b) (estimateTokens cc)) MIN_COMPRESSION_RATIO
             \<longrightarrow> (\<forall>x. error (fst (compressBlock env prov w bid b strat))
                        \<noteq> Some (RatioBelowMinimum x))))
   \<and> (blocks w bid = Some b \<and> validateBlock b = None
        \<and> raceWithTimeout (claudeQuery env
              (buildCompressionPrompt (content b) (tokensOrEstimate b) (btype b))) = Inr msgs
        \<and> trim (collectText msgs) \<noteq> []
       \<longrightarrow> (jsLess (jsDiv (tokensOrEstimate b) (estimateTokens (trim (collectText msgs)))) (12 / 10)
             \<longrightarrow> fst (compressWithClaudeCode env w bid strat)
                   = Inl (ClaudeCodeFailed (RatioBelowMinimum
                       (jsDiv (tokensOrEstimate b) (estimateTokens (trim (collectText msgs))))))
                 \<and> blocks (snd (compressWithClaudeCode env w bid strat)) = blocks w
                 \<and> fst (compressSingle env ClaudeCode w bid held strat)
                   = Inl (ClaudeCodeFailed (RatioBelowMinimum
                       (jsDiv (tokensOrEstimate b) (estimateTokens (trim (collectText msgs))))))
                 \<and> blocks (snd (compressSingle env ClaudeCode w bid held strat)) = blocks w)
           \<and> (\<not> jsLess (jsDiv (tokensOrEstimate b) (estimateTokens (trim (collectText msgs))))
                   (12 / 10)
             \<longrightarrow> \<not> isl (fst (compressWithClaudeCode env w bid strat))
                 \<and> map_option content (blocks (snd (compressWithClaudeCode env w bid strat)) bid)
                     = Some (trim (collectText msgs))))
   \<and> (map (blocks w) (map fst bs) = map Some stored
        \<and> \<not> sum_list (map tokensOrEstimate stored) < 100
        \<and> raceWithTimeout (claudeQuery env
              (buildCompressionPrompt (combineBlocks stored)
                 (sum_list (map tokensOrEstimate stored)) ''merged_blocks'')) = Inr msgs
        \<and> trim (collectText msgs) \<noteq> []
       \<longrightarrow> (jsLess (jsDiv (sum_list (map tokensOrEstimate stored))
                       (estimateTokens (trim (collectText msgs)))) (12 / 10)
             \<longrightarrow> fst (compressAndMergeWithClaudeCode env w (map fst bs) strat)
                   = Inl (ClaudeCodeFailed (RatioBelowMinimum
                       (jsDiv (sum_list (map tokensOrEstimate stored))
                          (estimateTokens (trim (collectText msgs))))))
                 \<and> (bs \<noteq> [] \<longrightarrow>
                      fst (compressAndMerge env ClaudeCode w bs strategyOption targetZone targetType)
                        = Inl (ClaudeCodeFailed (RatioBelowMinimum
                            (jsDiv (sum_list (map tokensOrEstimate stored))
                               (estimateTokens (trim (collectText msgs))))))
                      \<and> blocks (snd (compressAndMerge env ClaudeCode w bs strategyOption
                                       targetZone targetType)) = blocks w
                      \<and> nextId (snd (compressAndMerge env ClaudeCode w bs strategyOption
                                       targetZone targetType)) = nextId w))
           \<and> (\<not> jsLess (jsDiv (sum_list (map tokensOrEstimate stored))
                         (estimateTokens (trim (collectText msgs)))) (12 / 10)
             \<longrightarrow> \<not> isl (fst (compressAndMergeWithClaudeCode env w (map fst bs) strat))
                 \<and> (bs \<noteq> [] \<longrightarrow>
                      \<not> isl (fst (compressAndMerge env ClaudeCode w bs strategyOption
                                    targetZone targetType)))))
   \<and> (bs \<noteq> []
        \<and> fst (compressContent env prov (combineBlocks (map snd bs))
                 (case strategyOption of None \<Rightarrow> Semantic | Some s \<Rightarrow> s) ''merged_blocks'' w)
            = Inr cc
       \<longrightarrow> (jsLess (jsDiv (estimateTokens (combineBlocks (map snd bs))) (estimateTokens cc)) (12 / 10)
             \<longrightarrow> fst (compressAndMerge env prov w bs strategyOption targetZone targetType)
                   = Inl (RatioBelowMinimum
                       (jsDiv (estimateTokens (combineBlocks (map snd bs))) (estimateTokens cc)))
                 \<and> blocks (snd (compressAndMerge env prov w bs strategyOption targetZone
                                  targetType)) = blocks w
                 \<and> nextId (snd (compressAndMerge env prov w bs strategyOption targetZone
                                  targetType)) = nextId w)
           \<and> (\<not> jsLess (jsDiv (estimateTokens (combineBlocks (map snd bs))) (estimateTokens cc))
                   (12 / 10)
             \<longrightarrow> \<not> isl (fst (compressAndMerge env prov w bs strategyOption targetZone targetType))))"
proof -
  have arith: "jsLess (jsDiv a c) MIN_COMPRESSION_RATIO \<longleftrightarrow> c \<noteq> 0 \<and> 5 * a < 6 * c"
    by (simp add: MIN_COMPRESSION_RATIO_def jsLess_jsDiv)
  have pass: "\<not> jsLess (jsDiv 1500 1250) MIN_COMPRESSION_RATIO"
    by (simp add: MIN_COMPRESSION_RATIO_def jsLess_jsDiv)
  have fail: "jsLess (jsDiv 1500 1251) MIN_COMPRESSION_RATIO"
    by (simp add: MIN_COMPRESSION_RATIO_def jsLess_jsDiv)
  have service:
    "(jsLess (jsDiv (tokensOrEstimate b) (estimateTokens cc)) MIN_COMPRESSION_RATIO
             \<longrightarrow> \<not> success (fst (compressBlock env prov w bid b strat))
                 \<and> error (fst (compressBlock env prov w bid b strat))
                     = Some (RatioBelowMinimum (jsDiv (tokensOrEstimate b) (estimateTokens cc)))
                 \<and> compressedContent (fst (compressBlock env prov w bid b strat)) = None
                 \<and> blocks (snd (compressBlock env prov w bid b strat)) = blocks w
                 \<and> fst (compressSingle env prov w bid b strat)
                     = Inl (RatioBelowMinimum (jsDiv (tokensOrEstimate b) (estimateTokens cc)))
                 \<and> blocks (snd (compressSingle env prov w bid b strat)) = blocks w)
     \<and> (\<not> jsLess (jsDiv (tokensOrEstimate b) (estimateTokens cc)) MIN_COMPRESSION_RATIO
             \<longrightarrow> (\<forall>x. error (fst (compressBlock env prov w bid b strat))
                        \<noteq> Some (RatioBelowMinimum x)))"
    if h: "validateBlock b = None"
      "fst (compressContent env prov (content b) strat (btype b) w) = Inr cc"
  proof -
    obtain w' where c: "compressContent env prov (content b) strat (btype b) w = (Inr cc, w')"
      using h(2) by (cases "compressContent env prov (content b) strat (btype b) w") auto
    have f: "blocks w' = blocks w" using compressContent_frame [OF c] by simp
    have p: "prov \<noteq> ClaudeCode"
      using c by (auto simp: compressContent_def compressSemantic_def Let_def
          split: CompressionStrategy.splits)
    show ?thesis
      using p f
      by (simp add: compressBlock_def compressSingle_def h(1) c Let_def unsuccessful_def)
  qed
  have action:
    "(jsLess (jsDiv (tokensOrEstimate b) (estimateTokens (trim (collectText msgs)))) (12 / 10)
             \<longrightarrow> fst (compressWithClaudeCode env w bid strat)
                   = Inl (ClaudeCodeFailed (RatioBelowMinimum
                       (jsDiv (tokensOrEstimate b) (estimateTokens (trim (collectText msgs))))))
                 \<and> blocks (snd (compressWithClaudeCode env w bid strat)) = blocks w
                 \<and> fst (compressSingle env ClaudeCode w bid held strat)
                   = Inl (ClaudeCodeFailed (RatioBelowMinimum
                       (jsDiv (tokensOrEstimate b) (estimateTokens (trim (collectText msgs))))))
                 \<and> blocks (snd (compressSingle env ClaudeCode w bid held strat)) = blocks w)
     \<and> (\<not> jsLess (jsDiv (tokensOrEstimate b) (estimateTokens (trim (collectText msgs))))
                   (12 / 10)
             \<longrightarrow> \<not> isl (fst (compressWithClaudeCode env w bid strat))
                 \<and> map_option content (blocks (snd (compressWithClaudeCode env w bid strat)) bid)
                     = Some (trim (collectText msgs)))"
    if h: "blocks w bid = Some b" "validateBlock b = None"
      "raceWithTimeout (claudeQuery env
          (buildCompressionPrompt (content b) (tokensOrEstimate b) (btype b))) = Inr msgs"
      "trim (collectText msgs) \<noteq> []"
  proof (cases "jsLess (jsDiv (tokensOrEstimate b) (estimateTokens (trim (collectText msgs)))) (6 / 5)")
    case True
    show ?thesis
      using True by (simp add: compressWithClaudeCode_settled [OF h True] compressSingle_def)
  next
    case False
    show ?thesis
      using False by (simp add: compressWithClaudeCode_completed [OF h False])
  qed
  have merge:
    "(jsLess (jsDiv (sum_list (map tokensOrEstimate stored))
                       (estimateTokens (trim (collectText msgs)))) (12 / 10)
             \<longrightarrow> fst (compressAndMergeWithClaudeCode env w (map fst bs) strat)
                   = Inl (ClaudeCodeFailed (RatioBelowMinimum
                       (jsDiv (sum_list (map tokensOrEstimate stored))
                          (estimateTokens (trim (collectText msgs))))))
                 \<and> (bs \<noteq> [] \<longrightarrow>
                      fst (compressAndMerge env ClaudeCode w bs strategyOption targetZone targetType)
                        = Inl (ClaudeCodeFailed (RatioBelowMinimum
                            (jsDiv (sum_list (map tokensOrEstimate stored))
                               (estimateTokens (trim (collectText msgs))))))
                      \<and> blocks (snd (compressAndMerge env ClaudeCode w bs strategyOption
                                       targetZone targetType)) = blocks w
                      \<and> nextId (snd (compressAndMerge env ClaudeCode w bs strategyOption
                                       targetZone targetType)) = nextId w))
     \<and> (\<not> jsLess (jsDiv (sum_list (map tokensOrEstimate stored))
                         (estimateTokens (trim (collectText msgs)))) (12 / 10)
             \<longrightarrow> \<not> isl (fst (compressAndMergeWithClaudeCode env w (map fst bs) strat))
                 \<and> (bs \<noteq> [] \<longrightarrow>
                      \<not> isl (fst (compressAndMerge env ClaudeCode w bs strategyOption
                                    targetZone targetType))))"
    if h: "map (blocks w) (map fst bs) = map Some stored"
      "\<not> sum_list (map tokensOrEstimate stored) < 100"
      "raceWithTimeout (claudeQuery env
          (buildCompressionPrompt (combineBlocks stored)
             (sum_list (map tokensOrEstimate stored)) ''merged_blocks'')) = Inr msgs"
      "trim (collectText msgs) \<noteq> []"
    by (simp add: compressAndMergeWithClaudeCode_found [OF h(1,2)]
          runClaudeCode_settled [OF h(3,4)] compressAndMerge_def Let_def
          blocks_compressAndMerge_def)
  have hook:
    "(jsLess (jsDiv (estimateTokens (combineBlocks (map snd bs))) (estimateTokens cc)) (12 / 10)
             \<longrightarrow> fst (compressAndMerge env prov w bs strategyOption targetZone targetType)
                   = Inl (RatioBelowMinimum
                       (jsDiv (estimateTokens (combineBlocks (map snd bs))) (estimateTokens cc)))
                 \<and> blocks (snd (compressAndMerge env prov w bs strategyOption targetZone
                                  targetType)) = blocks w
                 \<and> nextId (snd (compressAndMerge env prov w bs strategyOption targetZone
                                  targetType)) = nextId w)
     \<and> (\<not> jsLess (jsDiv (estimateTokens (combineBlocks (map snd bs))) (estimateTokens cc))
                   (12 / 10)
             \<longrightarrow> \<not> isl (fst (compressAndMerge env prov w bs strategyOption targetZone targetType)))"
    if h: "bs \<noteq> []"
      "fst (compressContent env prov (combineBlocks (map snd bs))
              (case strategyOption of None \<Rightarrow> Semantic | Some s \<Rightarrow> s) ''merged_blocks'' w)
         = Inr cc"
  proof -
    obtain w' where c: "compressContent env prov (combineBlocks (map snd bs))
              (case strategyOption of None \<Rightarrow> Semantic | Some s \<Rightarrow> s) ''merged_blocks'' w
         = (Inr cc, w')"
      using h(2)
      by (cases "compressContent env prov (combineBlocks (map snd bs))
              (case strategyOption of None \<Rightarrow> Semantic | Some s \<Rightarrow> s) ''merged_blocks'' w") auto
    have f: "blocks w' = blocks w" "nextId w' = nextId w"
      using compressContent_frame [OF c] by simp_all
    have p: "prov \<noteq> ClaudeCode"
      using c by (auto simp: compressContent_def compressSemantic_def Let_def
          split: CompressionStrategy.splits)
    show ?thesis
      using p f h(1)
      by (simp add: compressAndMerge_def compressText_def c Let_def blocks_compressAndMerge_def)
  qed
  show ?thesis
    using arith pass fail service action merge hook by blast
qed


theorem ratio_gate_rejects_exactly_below_minimum_witness:
  "validateBlock (textBlock (repeated 6000)) = None
   \<and> tokensOrEstimate (textBlock (repeated 6000)) = 1500
   \<and> estimateTokens (repeated 5004) = 1251
   \<and> estimateTokens (repeated 5000) = 1250
   \<and> fst (compressContent (constantBackends (Chunks [repeated 5004]) Hangs) Ollama
            (content (textBlock (repeated 6000))) Semantic (btype (textBlock (repeated 6000)))
            (storeWith [(7, textBlock (repeated 6000))]))
       = Inr (repeated 5004)
   \<and> jsLess (jsDiv 1500 1251) MIN_COMPRESSION_RATIO
   \<and> \<not> success (fst (compressBlock (constantBackends (Chunks [repeated 5004]) Hangs) Ollama
            (storeWith [(7, textBlock (repeated 6000))]) 7 (textBlock (repeated 6000)) Semantic))
   \<and> fst (compressSingle (constantBackends (Chunks [repeated 5004]) Hangs) Ollama
            (storeWith [(7, textBlock (repeated 6000))]) 7 (textBlock (repeated 6000)) Semantic)
       = Inl (RatioBelowMinimum (jsDiv 1500 1251))
   \<and> blocks (snd (compressSingle (constantBackends (Chunks [repeated 5004]) Hangs) Ollama
            (storeWith [(7, textBlock (repeated 6000))]) 7 (textBlock (repeated 6000)) Semantic))
       = blocks (storeWith [(7, textBlock (repeated 6000))])
   \<and> blocks (storeWith [(7, textBlock (repeated 6000))]) 7 = Some (textBlock (repeated 6000))
   \<and> fst (compressWithClaudeCode
            (constantBackends (Chunks [])
               (Completes 1000 [Assistant (Some [TextPart (repeated 5004)])]))
            (storeWith [(7, textBlock (repeated 6000))]) 7 Semantic)
       = Inl (ClaudeCodeFailed (RatioBelowMinimum (jsDiv 1500 1251)))
   \<and> \<not> isl (fst (compressWithClaudeCode
            (constantBackends (Chunks [])
               (Completes 1000 [Assistant (Some [TextPart (repeated 5000)])]))
            (storeWith [(7, textBlock (repeated 6000))]) 7 Semantic))
   \<and> map (blocks (storeWith [(1, textBlock (repeated 3000)), (2, textBlock (repeated 3000))]))
         (map fst [(1, textBlock (repeated 3000)), (2, textBlock (repeated 3000))])
       = map Some [textBlock (repeated 3000), textBlock (repeated 3000)]
   \<and> sum_list (map tokensOrEstimate [textBlock (repeated 3000), textBlock (repeated 3000)]) = 1500
   \<and> fst (compressAndMergeWithClaudeCode
            (constantBackends (Chunks [])
               (Completes 1000 [Assistant (Some [TextPart (repeated 5004)])]))
            (storeWith [(1, textBlock (repeated 3000)), (2, textBlock (repeated 3000))])
            (map fst [(1, textBlock (repeated 3000)), (2, textBlock (repeated 3000))]) Semantic)
       = Inl (ClaudeCodeFailed (RatioBelowMinimum (jsDiv 1500 1251)))
   \<and> fst (compressAndMerge
            (constantBackends (Chunks [])
               (Completes 1000 [Assistant (Some [TextPart (repeated 5004)])]))
            ClaudeCode
            (storeWith [(1, textBlock (repeated 3000)), (2, textBlock (repeated 3000))])
            [(1, textBlock (repeated 3000)), (2, textBlock (repeated 3000))]
            None ''WORKING'' ''note'')
       = Inl (ClaudeCodeFailed (RatioBelowMinimum (jsDiv 1500 1251)))
   \<and> estimateTokens (combineBlocks
         (map snd [(1, textBlock (repeated 3000)), (2, textBlock (repeated 3000))])) = 1512
   \<and> fst (compressAndMerge (constantBackends (Chunks [repeated 5044]) Hangs) Ollama
            (storeWith [(1, textBlock (repeated 3000)), (2, textBlock (repeated 3000))])
            [(1, textBlock (repeated 3000)), (2, textBlock (repeated 3000))]
            None ''WORKING'' ''note'')
       = Inl (RatioBelowMinimum (jsDiv 1512 1261))
   \<and> blocks (snd (compressAndMerge (constantBackends (Chunks [repeated 5044]) Hangs) Ollama
            (storeWith [(1, textBlock (repeated 3000)), (2, textBlock (repeated 3000))])
            [(1, textBlock (repeated 3000)), (2, textBlock (repeated 3000))]
            None ''WORKING'' ''note''))
       = blocks (storeWith [(1, textBlock (repeated 3000)), (2, textBlock (repeated 3000))])
   \<and> \<not> isl (fst (compressAndMerge (constantBackends (Chunks [repeated 5040]) Hangs) Ollama
            (storeWith [(1, textBlock (repeated 3000)), (2, textBlock (repeated 3000))])
            [(1, textBlock (repeated 3000)), (2, textBlock (repeated 3000))]
            None ''WORKING'' ''note''))"
proof -
  let ?b = "textBlock (repeated 6000)"
  let ?w = "storeWith [(7, ?b)]"
  let ?c = "textBlock (repeated 3000)"
  let ?bs = "[(1, ?c), (2, ?c)]"
  let ?u = "storeWith ?bs"
  let ?service = "\<lambda>n. constantBackends (Chunks [repeated n]) Hangs"
  let ?agent = "\<lambda>n. constantBackends (Chunks [])
                   (Completes 1000 [Assistant (Some [TextPart (repeated n)])])"
  have v: "validateBlock ?b = None" by (simp add: validateBlock_repeated)
  have n: "tokensOrEstimate ?b = 1500" "estimateTokens (repeated 5004) = 1251"
    "estimateTokens (repeated 5000) = 1250" "estimateTokens (repeated 5044) = 1261"
    "estimateTokens (repeated 5040) = 1260"
    by (simp_all add: tokensOrEstimate_def textBlock_def estimateTokens_repeated)
  have c: "fst (compressContent (?service k) Ollama x Semantic t y) = Inr (repeated k)" for k x t y
    by (simp add: compressContent_def compressSemantic_def compressWithOllama_def
          constantBackends_def Let_def trim_repeated)
  have s: "blocks ?w 7 = Some ?b" by (simp add: storeWith_def)
  have r: "raceWithTimeout (claudeQuery (?agent k) p) = Inr [Assistant (Some [TextPart (repeated k)])]"
    for k p
    by (simp add: constantBackends_def raceWithTimeout_def timeoutMs_def)
  have e: "trim (collectText [Assistant (Some [TextPart (repeated k)])]) = repeated k" for k
    by (simp add: collect_one_text trim_repeated)
  have ne: "trim (collectText [Assistant (Some [TextPart (repeated (Suc k))])]) \<noteq> []" for k
    by (simp add: e) (simp add: repeated_def)
  have k: "5004 = Suc 5003" "5000 = Suc 4999" by simp_all
  have f: "map (blocks ?u) (map fst ?bs) = map Some [?c, ?c]" by (simp add: storeWith_def)
  have t: "sum_list (map tokensOrEstimate [?c, ?c]) = 1500"
    by (simp add: tokensOrEstimate_def textBlock_def estimateTokens_repeated)
  have m: "estimateTokens (combineBlocks (map snd ?bs)) = 1512"
    by (simp add: combineBlocks_def enumerate_eq_zip blockSeparator_def textBlock_def
          estimateTokens_def repeated_def numberToString_def showNat.simps digitChar_def
          upt_rec [of 0] upt_rec [of 1] upt_rec [of "Suc 0"])
  have less: "jsLess (jsDiv 1500 1251) MIN_COMPRESSION_RATIO"
    "jsLess (jsDiv 1500 1251) (12 / 10)" "\<not> jsLess (jsDiv 1500 1250) (12 / 10)"
    "jsLess (jsDiv 1512 1261) (12 / 10)" "\<not> jsLess (jsDiv 1512 1260) (12 / 10)"
    by (simp_all add: MIN_COMPRESSION_RATIO_def jsLess_jsDiv)
  note service = ratio_gate_rejects_exactly_below_minimum [where b = ?b and env = "?service 5004" and prov = Ollama
      and strat = Semantic and w = ?w and cc = "repeated 5004" and bid = 7]
  have a1: "\<not> success (fst (compressBlock (?service 5004) Ollama ?w 7 ?b Semantic))"
    "fst (compressSingle (?service 5004) Ollama ?w 7 ?b Semantic)
       = Inl (RatioBelowMinimum (jsDiv 1500 1251))"
    "blocks (snd (compressSingle (?service 5004) Ollama ?w 7 ?b Semantic)) = blocks ?w"
    using service v c less n by auto
  note rejected = ratio_gate_rejects_exactly_below_minimum [where b = ?b and env = "?agent 5004" and strat = Semantic
      and w = ?w and bid = 7 and msgs = "[Assistant (Some [TextPart (repeated 5004)])]"]
  have a2: "fst (compressWithClaudeCode (?agent 5004) ?w 7 Semantic)
       = Inl (ClaudeCodeFailed (RatioBelowMinimum (jsDiv 1500 1251)))"
    using rejected s v r [of 5004] ne [of 5003] less n unfolding e k [symmetric] by auto
  note passed = ratio_gate_rejects_exactly_below_minimum [where b = ?b and env = "?agent 5000" and strat = Semantic
      and w = ?w and bid = 7 and msgs = "[Assistant (Some [TextPart (repeated 5000)])]"]
  have a3: "\<not> isl (fst (compressWithClaudeCode (?agent 5000) ?w 7 Semantic))"
    using passed s v r [of 5000] ne [of 4999] less n unfolding e k [symmetric] by auto
  note merged = ratio_gate_rejects_exactly_below_minimum [where bs = ?bs and stored = "[?c, ?c]" and env = "?agent 5004"
      and strat = Semantic and w = ?u and msgs = "[Assistant (Some [TextPart (repeated 5004)])]"
      and strategyOption = None and targetZone = "''WORKING''" and targetType = "''note''"]
  have a4: "fst (compressAndMergeWithClaudeCode (?agent 5004) ?u (map fst ?bs) Semantic)
       = Inl (ClaudeCodeFailed (RatioBelowMinimum (jsDiv 1500 1251)))"
    "fst (compressAndMerge (?agent 5004) ClaudeCode ?u ?bs None ''WORKING'' ''note'')
       = Inl (ClaudeCodeFailed (RatioBelowMinimum (jsDiv 1500 1251)))"
    using merged f t r [of 5004] ne [of 5003] less n unfolding e k [symmetric] by auto
  note hook = ratio_gate_rejects_exactly_below_minimum [where bs = ?bs and env = "?service 5044" and prov = Ollama
      and w = ?u and cc = "repeated 5044"
      and strategyOption = None and targetZone = "''WORKING''" and targetType = "''note''"]
  have a5: "fst (compressAndMerge (?service 5044) Ollama ?u ?bs None ''WORKING'' ''note'')
       = Inl (RatioBelowMinimum (jsDiv 1512 1261))"
    "blocks (snd (compressAndMerge (?service 5044) Ollama ?u ?bs None ''WORKING'' ''note''))
       = blocks ?u"
    using hook c [of 5044] less unfolding m n by auto
  note hook' = ratio_gate_rejects_exactly_below_minimum [where bs = ?bs and env = "?service 5040" and prov = Ollama
      and w = ?u and cc = "repeated 5040"
      and strategyOption = None and targetZone = "''WORKING''" and targetType = "''note''"]
  have a6: "\<not> isl (fst (compressAndMerge (?service 5040) Ollama ?u ?bs None ''WORKING'' ''note''))"
    using hook' c [of 5040] less unfolding m n by auto
  show ?thesis
    by (intro conjI v n(1) n(2) n(3) c less(1) a1 s a2 a3 f t a4 m a5 a6)
qed

section \<open>A text that is one word\<close>

lemma runs_length: "list_all (inClass c) s \<Longrightarrow> length (runs c n b s) = Suc (length s)"
  by (induction s arbitrary: n b) simp_all

lemma runs_last:
  "list_all (inClass c) s \<Longrightarrow>
   last (runs c n b s) = (n + length s, (if s = [] then b else Some (last s)), [])"
proof (induction s arbitrary: n b)
  case Nil
  show ?case by simp
next
  case (Cons x xs)
  then have "runs c (Suc n) (Some x) xs \<noteq> []" by (cases xs) simp_all
  with Cons show ?case by simp
qed

lemma matchAt_word:
  assumes "s \<noteq> []" and "list_all (inClass LowerOrDigit) s"
  shows "matchAt wordRx None s = Some (length s)"
proof -
  let ?R = "runs LowerOrDigit 0 None s"
  have len: "length ?R = Suc (length s)" by (rule runs_length [OF assms(2)])
  have lst: "last ?R = (length s, Some (last s), [])"
    using runs_last [OF assms(2), of 0 None] assms(1) by simp
  have "length (drop (Suc 0) ?R) = length s" by (simp add: len)
  with assms(1) have "drop (Suc 0) ?R \<noteq> []" by (metis length_0_conv)
  then have "rev (drop (Suc 0) ?R) = last (drop (Suc 0) ?R) # rev (butlast (drop (Suc 0) ?R))"
    by (metis append_butlast_last_id rev.simps(2) rev_rev_ident rev_swap)
  moreover have "last (drop (Suc 0) ?R) = last ?R" using \<open>drop (Suc 0) ?R \<noteq> []\<close> by (simp add: last_drop)
  ultimately have r: "rev (drop (Suc 0) ?R) = (length s, Some (last s), []) # rev (butlast (drop (Suc 0) ?R))"
    using lst by simp
  from assms have w: "isWordChar (last s)"
    by (metis inClass.simps(4) isWordChar_def last_in_set list_all_iff)
  from assms(1) obtain x xs where s: "s = x # xs" by (cases s) auto
  with assms(2) have x: "isWordChar x" by (auto simp: isWordChar_def)
  have b: "atBoundary None s" by (simp add: atBoundary_def s x)
  have e: "atBoundary (Some (last s)) []" by (simp add: atBoundary_def w)
  show ?thesis
    by (simp add: matchAt_def wordRx_def b r e)
qed

lemma matchAll_word:
  assumes "s \<noteq> []" and "list_all (inClass LowerOrDigit) s"
  shows "matchAll wordRx s = [s]"
proof -
  from assms(1) obtain x xs where s: "s = x # xs" by (cases s) auto
  have "matchAt wordRx None (x # xs) = Some (Suc (length xs))"
    using matchAt_word [OF assms] by (simp add: s)
  then have "scan wordRx 0 None (x # xs) = Matched (x # xs) # scan wordRx (length xs) (Some x) xs"
    by simp
  moreover have "scan wordRx (length xs) (Some x) xs = []"
    using scan_skip [of wordRx xs "Some x" "[]"] by (simp add: matchAt_def wordRx_def)
  ultimately show ?thesis by (simp add: matchAll_def s)
qed

lemma lowerChar_lower_or_digit: "inClass LowerOrDigit c \<Longrightarrow> lowerChar c = c"
  by (auto simp: lowerChar_def char_class_defs latin1Upper_def)

lemma toLowerCase_word: "list_all (inClass LowerOrDigit) s \<Longrightarrow> toLowerCase s = s"
  by (induction s) (simp_all add: toLowerCase_def lowerChar_lower_or_digit)

lemma extractImportantWords_server_word:
  assumes "list_all (inClass LowerOrDigit) s" and "3 < length s" and "s \<notin> set stopWords"
  shows "extractImportantWords_server s = [s]"
proof -
  from assms(2) have "s \<noteq> []" by auto
  then show ?thesis
    using assms
    by (simp add: extractImportantWords_server_def toLowerCase_word matchAll_word [OF _ assms(1)]
          uniqueInOrder_def)
qed





section \<open>The quality gate\<close>








section \<open>The original token count\<close>

lemma blocks_compress_count:
  assumes "blocks_compress w bid cc n m r st = Inr w'"
  shows "\<exists>blk. blocks w bid = Some blk
           \<and> Option.bind (blocks w' bid) originalTokenCount
               = Some (case originalTokenCount blk of
                         None \<Rightarrow> n | Some v \<Rightarrow> if v = 0 then n else v)"
  using assms by (auto simp: blocks_compress_def split: option.splits)

lemma compressBlock_success:
  assumes "compressBlock env prov w bid b strat = (r, w')" and "success r"
  shows "100 \<le> originalTokens r \<and> blocks w' = blocks w"
proof -
  from assms have v: "validateBlock b = None"
    by (cases "validateBlock b") (auto simp: compressBlock_def unsuccessful_def)
  then have n: "100 \<le> tokensOrEstimate b" by (simp add: validateBlock_None_iff)
  have "originalTokens r = tokensOrEstimate b"
    using assms
    by (auto simp: compressBlock_def v Let_def unsuccessful_def
        split: prod.splits sum.splits if_splits)
  with n compressBlock_frame [OF assms(1)] show ?thesis by simp
qed

lemma compressSingle_count:
  assumes "compressSingle env prov w bid b strat = (Inr r, w')"
  shows "\<exists>blk n. blocks w bid = Some blk \<and> 100 \<le> n
           \<and> Option.bind (blocks w' bid) originalTokenCount
               = Some (case originalTokenCount blk of
                         None \<Rightarrow> n | Some v \<Rightarrow> if v = 0 then n else v)"
proof (cases "prov = ClaudeCode")
  case True
  with assms obtain a where a: "compressWithClaudeCode env w bid strat = (Inr a, w')"
    by (auto simp: compressSingle_def split: prod.splits sum.splits)
  then obtain blk where blk: "blocks w bid = Some blk"
    by (cases "blocks w bid") (auto simp: compressWithClaudeCode_def)
  from a blk obtain cc ct cr w1 where
    run: "runClaudeCode env (buildCompressionPrompt (content blk) (tokensOrEstimate blk) (btype blk))
            (content blk) (tokensOrEstimate blk) w = (Inr (cc, ct, cr), w1)"
    and n: "100 \<le> tokensOrEstimate blk"
    and save: "blocks_compress w1 bid cc (tokensOrEstimate blk) ct cr strat = Inr w'"
    by (auto simp: compressWithClaudeCode_def Let_def
        split: if_splits prod.splits sum.splits)
  from runClaudeCode_frame [OF run] have "blocks w1 = blocks w" by simp
  with blocks_compress_count [OF save] blk n show ?thesis by auto
next
  case False
  with assms obtain cr w1 cc where
    cb: "compressBlock env prov w bid b strat = (cr, w1)" and ok: "success cr"
    and save: "blocks_compress w1 bid cc (originalTokens cr) (compressedTokens cr)
                 (compressionRatio cr) strat = Inr w'"
    by (auto simp: compressSingle_def split: prod.splits sum.splits if_splits option.splits)
  from compressBlock_success [OF cb ok]
  have "100 \<le> originalTokens cr" "blocks w1 = blocks w" by simp_all
  with blocks_compress_count [OF save] show ?thesis by auto
qed

lemma compressSingle_chunks:
  assumes "validateBlock b = None"
      and "prov \<noteq> ClaudeCode"
      and "\<And>p. ollama env p = Chunks cs"
      and "\<And>p. openrouter env p = Chunks cs"
      and "\<not> jsLess (jsDiv (tokensOrEstimate b) (estimateTokens (trim (concat cs)))) (6 / 5)"
      and "\<not> estimateQuality (content b) (trim (concat cs)) < 6 / 10"
      and "blocks w bid = Some blk"
  shows "\<not> isl (fst (compressSingle env prov w bid b Semantic))
         \<and> blocks (snd (compressSingle env prov w bid b Semantic))
             = (blocks w)(bid \<mapsto>
                 blk\<lparr>content := trim (concat cs),
                     tokens := Some (estimateTokens (trim (concat cs))),
                     isCompressed := True,
                     originalTokenCount :=
                       Some (case originalTokenCount blk of
                               None \<Rightarrow> tokensOrEstimate b
                             | Some v \<Rightarrow> if v = 0 then tokensOrEstimate b else v),
                     ratio := Some (jsDiv (tokensOrEstimate b) (estimateTokens (trim (concat cs)))),
                     compressionStrategy := Some Semantic\<rparr>)"
  using assms(2,6,7)
  by (simp add: compressSingle_def compressBlock_chunks [OF assms(1,2,3,4,5)]
        blocks_compress_def)

text \<open>
  C6: when a block is compressed with success and then compressed with success again, its
  original token count after the second compression is the one it had after the first;
  and a successful compression never lowers an original token count that was set.
\<close>

theorem recompression_keeps_originalTokenCount:
  assumes "compressSingle env1 prov1 w bid b1 strat1 = (Inr r1, w1)"
      and "compressSingle env2 prov2 w1 bid b2 strat2 = (Inr r2, w2)"
  shows "Option.bind (blocks w1 bid) originalTokenCount \<noteq> None
         \<and> Option.bind (blocks w2 bid) originalTokenCount
             = Option.bind (blocks w1 bid) originalTokenCount
         \<and> (\<forall>v. Option.bind (blocks w bid) originalTokenCount = Some v \<longrightarrow>
               (\<exists>v'. Option.bind (blocks w1 bid) originalTokenCount = Some v' \<and> v \<le> v'))"
proof -
  from compressSingle_count [OF assms(1)] obtain blk n where
    first: "blocks w bid = Some blk" "100 \<le> n"
      "Option.bind (blocks w1 bid) originalTokenCount
       = Some (case originalTokenCount blk of None \<Rightarrow> n | Some v \<Rightarrow> if v = 0 then n else v)"
    by blast
  let ?c = "case originalTokenCount blk of None \<Rightarrow> n | Some v \<Rightarrow> if v = 0 then n else v"
  from first(2) have pos: "?c \<noteq> 0" by (auto split: option.splits)
  from compressSingle_count [OF assms(2)] obtain blk1 m where
    second: "blocks w1 bid = Some blk1"
      "Option.bind (blocks w2 bid) originalTokenCount
       = Some (case originalTokenCount blk1 of None \<Rightarrow> m | Some v \<Rightarrow> if v = 0 then m else v)"
    by blast
  from first(3) second(1) have "originalTokenCount blk1 = Some ?c" by simp
  with second(2) pos have keep: "Option.bind (blocks w2 bid) originalTokenCount = Some ?c"
    by simp
  have mono: "Option.bind (blocks w bid) originalTokenCount = Some v \<Longrightarrow> v \<le> ?c" for v
    using first(1) by (auto split: option.splits)
  show ?thesis using first(3) keep mono by simp
qed


theorem recompression_keeps_originalTokenCount_witness:
  "\<not> isl (fst (compressSingle (constantBackends (Chunks [repeated 500]) Hangs) Ollama
                 (storeWith [(7, textBlock (repeated 2000))]) 7 (textBlock (repeated 2000)) Semantic))
   \<and> \<not> isl (fst (compressSingle (constantBackends (Chunks [repeated 100]) Hangs) Ollama
                 (snd (compressSingle (constantBackends (Chunks [repeated 500]) Hangs) Ollama
                         (storeWith [(7, textBlock (repeated 2000))]) 7
                         (textBlock (repeated 2000)) Semantic))
                 7 (textBlock (repeated 500)) Semantic))
   \<and> Option.bind
         (blocks (snd (compressSingle (constantBackends (Chunks [repeated 500]) Hangs) Ollama
                         (storeWith [(7, textBlock (repeated 2000))]) 7
                         (textBlock (repeated 2000)) Semantic)) 7)
         originalTokenCount = Some 500
   \<and> Option.bind
         (blocks (snd (compressSingle (constantBackends (Chunks [repeated 100]) Hangs) Ollama
                 (snd (compressSingle (constantBackends (Chunks [repeated 500]) Hangs) Ollama
                         (storeWith [(7, textBlock (repeated 2000))]) 7
                         (textBlock (repeated 2000)) Semantic))
                 7 (textBlock (repeated 500)) Semantic)) 7)
         originalTokenCount = Some 500"
proof -
  let ?e1 = "constantBackends (Chunks [repeated 500]) Hangs"
  let ?e2 = "constantBackends (Chunks [repeated 100]) Hangs"
  let ?b1 = "textBlock (repeated 2000)"
  let ?b2 = "textBlock (repeated 500)"
  let ?w = "storeWith [(7, ?b1)]"
  let ?X1 = "compressSingle ?e1 Ollama ?w 7 ?b1 Semantic"
  let ?X2 = "compressSingle ?e2 Ollama (snd ?X1) 7 ?b2 Semantic"
  have p: "Ollama \<noteq> ClaudeCode" by simp
  have n: "tokensOrEstimate ?b1 = 500" "tokensOrEstimate ?b2 = 125"
    by (simp_all add: tokensOrEstimate_def textBlock_def estimateTokens_repeated)
  have c: "content ?b1 = repeated 2000" "content ?b2 = repeated 500"
    by (simp_all add: textBlock_def)
  have first: "\<not> isl (fst ?X1)
      \<and> blocks (snd ?X1)
          = (blocks ?w)(7 \<mapsto>
              ?b1\<lparr>content := trim (concat [repeated 500]),
                  tokens := Some (estimateTokens (trim (concat [repeated 500]))),
                  isCompressed := True,
                  originalTokenCount :=
                    Some (case originalTokenCount ?b1 of
                            None \<Rightarrow> tokensOrEstimate ?b1
                          | Some v \<Rightarrow> if v = 0 then tokensOrEstimate ?b1 else v),
                  ratio := Some (jsDiv (tokensOrEstimate ?b1)
                                   (estimateTokens (trim (concat [repeated 500])))),
                  compressionStrategy := Some Semantic\<rparr>)"
    by (rule compressSingle_chunks)
       (simp_all add: validateBlock_repeated constantBackends_def trim_repeated n c
          estimateTokens_repeated jsLess_jsDiv estimateQuality_default
          extractImportantWords_repeated storeWith_def)
  have o1: "originalTokenCount ?b1 = None" by (simp add: textBlock_def)
  from first have count1: "Option.bind (blocks (snd ?X1) 7) originalTokenCount = Some 500"
    by (simp add: n o1)
  from first obtain blk1 where blk1: "blocks (snd ?X1) 7 = Some blk1" by simp
  have second: "\<not> isl (fst ?X2)
      \<and> blocks (snd ?X2)
          = (blocks (snd ?X1))(7 \<mapsto>
              blk1\<lparr>content := trim (concat [repeated 100]),
                  tokens := Some (estimateTokens (trim (concat [repeated 100]))),
                  isCompressed := True,
                  originalTokenCount :=
                    Some (case originalTokenCount blk1 of
                            None \<Rightarrow> tokensOrEstimate ?b2
                          | Some v \<Rightarrow> if v = 0 then tokensOrEstimate ?b2 else v),
                  ratio := Some (jsDiv (tokensOrEstimate ?b2)
                                   (estimateTokens (trim (concat [repeated 100])))),
                  compressionStrategy := Some Semantic\<rparr>)"
    by (rule compressSingle_chunks [OF _ _ _ _ _ _ blk1])
       (simp_all add: validateBlock_repeated constantBackends_def trim_repeated n c
          estimateTokens_repeated jsLess_jsDiv estimateQuality_default
          extractImportantWords_repeated)
  have x1: "?X1 = (Inr (projr (fst ?X1)), snd ?X1)"
    using first by (cases "fst ?X1") (simp_all add: prod_eq_iff)
  have x2: "?X2 = (Inr (projr (fst ?X2)), snd ?X2)"
    using second by (cases "fst ?X2") (simp_all add: prod_eq_iff)
  show ?thesis
    using recompression_keeps_originalTokenCount [OF x1 x2] first second count1 by simp
qed

section \<open>The target in the prompts\<close>

lemma joinWith_sublist: "x \<in> set xs \<Longrightarrow> sublist x (joinWith sep xs)"
proof (induction sep xs rule: joinWith.induct)
  case (1 sep)
  then show ?case by simp
next
  case (2 sep y)
  then show ?case by simp
next
  case (3 sep y z zs)
  show ?case
  proof (cases "x = y")
    case True
    then show ?thesis by (simp add: sublist_append)
  next
    case False
    with 3 have "sublist x (joinWith sep (z # zs))" by simp
    then have "sublist x ((y @ sep) @ joinWith sep (z # zs))"
      using sublist_order.order_trans sublist_append_leftI by blast
    then show ?thesis by simp
  qed
qed

lemma ceilDiv_two: "ceilDiv n 2 = nat \<lceil>real n / 2\<rceil>"
proof -
  have "\<lceil>real n / 2\<rceil> = \<lceil>real_of_int (int n) / real_of_int 2\<rceil>" by simp
  also have "\<dots> = - (- int n div 2)" by (rule ceiling_divide_eq_div)
  also have "\<dots> = (int n + 1) div 2" by presburger
  finally have "\<lceil>real n / 2\<rceil> = int ((n + 1) div 2)" by (simp add: zdiv_int)
  then show ?thesis by (simp add: ceilDiv_def)
qed

lemma sublist_single: "sublist [x] ys \<longleftrightarrow> x \<in> set ys"
  by (induction ys) (auto simp: sublist_Cons_right)

text \<open>
  C8, as stated, fails for the prompt of the semantic strategy: for the content
  \<open>"x".repeat(400)\<close>, of 100 tokens, and the ratio 2, the prompt says \<open>100/2\<close> and has
  no \<open>50\<close> in it.
\<close>

theorem formatPrompt_leaves_target_uncomputed:
  "\<not> includes_str
       (formatPrompt (repeated 400) (estimateTokens (repeated 400)) 2 ''text'')
       (showNat (nat \<lceil>real (estimateTokens (repeated 400)) / real 2\<rceil>))"
proof
  assume a: "includes_str
       (formatPrompt (repeated 400) (estimateTokens (repeated 400)) 2 ''text'')
       (showNat (nat \<lceil>real (estimateTokens (repeated 400)) / real 2\<rceil>))"
  have n: "estimateTokens (repeated 400) = 100" by (simp add: estimateTokens_repeated)
  have "nat \<lceil>real 100 / real 2\<rceil> = 50" by simp
  then have t: "showNat (nat \<lceil>real 100 / real 2\<rceil>) = ''50''"
    by (simp add: showNat.simps digitChar_def)
  have d: "numberOrEmpty 100 = ''100''" "numberOrEmpty 2 = ''2''"
    by (simp_all add: numberOrEmpty_def numberToString_def showNat.simps digitChar_def)
  from a have "sublist ''50'' (formatPrompt (repeated 400) 100 2 ''text'')"
    unfolding n t includes_str_def .
  then have "set ''50'' \<subseteq> set (formatPrompt (repeated 400) 100 2 ''text'')"
    by (rule set_mono_sublist)
  then have "CHR ''5'' \<in> set (formatPrompt (repeated 400) 100 2 ''text'')" by simp
  then show False
    unfolding formatPrompt_eq d by (simp add: repeated_def nl_def)
qed

text \<open>
  C8, amended: the prompt of the compression actions, whose target ratio is the constant 2,
  states the target as the number \<open>ceil(originalTokens / 2)\<close>, written as JavaScript
  writes a number; for a token count below \<open>2^53\<close> these are its decimal digits.  The
  prompt of the semantic strategy contains the token count and the ratio as the text
  \<open>originalTokens/targetRatio\<close>, not their quotient.
\<close>

theorem prompts_state_the_target:
  "includes_str (buildCompressionPrompt c n t)
     (''Target length: ~'' @ numberToString (ceilDiv n 2) @ '' tokens'')
   \<and> ceilDiv n 2 = nat \<lceil>real n / 2\<rceil>
   \<and> (n < 2 ^ 53 \<longrightarrow>
        includes_str (buildCompressionPrompt c n t)
          (''Target length: ~'' @ showNat (nat \<lceil>real n / 2\<rceil>) @ '' tokens''))
   \<and> includes_str (formatPrompt c n r t) (numberOrEmpty n @ ''/'' @ numberOrEmpty r)"
proof -
  have "sublist (''Target length: ~'' @ numberToString (ceilDiv n 2) @ '' tokens'')
          (''- '' @ (''Target length: ~'' @ numberToString (ceilDiv n 2) @ '' tokens'')
             @ '' ('' @ numberToString 2 @ ''x compression ratio)'')"
    by (rule sublist_appendI)
  moreover have "sublist
          (''- '' @ (''Target length: ~'' @ numberToString (ceilDiv n 2) @ '' tokens'')
             @ '' ('' @ numberToString 2 @ ''x compression ratio)'')
          (buildCompressionPrompt c n t)"
    unfolding buildCompressionPrompt_def Let_def by (rule joinWith_sublist) simp
  ultimately have server: "sublist (''Target length: ~'' @ numberToString (ceilDiv n 2) @ '' tokens'')
      (buildCompressionPrompt c n t)"
    by (rule sublist_order.order_trans)
  have safe: "numberToString (ceilDiv n 2) = showNat (ceilDiv n 2)" if "n < 2 ^ 53"
  proof -
    have "ceilDiv n 2 \<le> n" by (simp add: ceilDiv_def)
    with that show ?thesis by (simp add: numberToString_def)
  qed
  have "sublist (numberOrEmpty n @ ''/'' @ numberOrEmpty r)
          ((''You are a compression specialist. Compress the following '' @ t
             @ '' content from '' @ numberOrEmpty n @ '' tokens to approximately '')
           @ (numberOrEmpty n @ ''/'' @ numberOrEmpty r)
           @ '' tokens while preserving all critical information.'')"
    by (rule sublist_appendI)
  moreover have "sublist
          ((''You are a compression specialist. Compress the following '' @ t
             @ '' content from '' @ numberOrEmpty n @ '' tokens to approximately '')
           @ (numberOrEmpty n @ ''/'' @ numberOrEmpty r)
           @ '' tokens while preserving all critical information.'')
          (formatPrompt c n r t)"
    unfolding formatPrompt_eq by (rule joinWith_sublist) simp
  ultimately have client: "sublist (numberOrEmpty n @ ''/'' @ numberOrEmpty r) (formatPrompt c n r t)"
    by (rule sublist_order.order_trans)
  have a: "includes_str (buildCompressionPrompt c n t)
     (''Target length: ~'' @ numberToString (ceilDiv n 2) @ '' tokens'')"
    using server by (simp add: includes_str_def)
  have b: "ceilDiv n 2 = nat \<lceil>real n / 2\<rceil>" by (rule ceilDiv_two)
  have c: "n < 2 ^ 53 \<longrightarrow>
        includes_str (buildCompressionPrompt c n t)
          (''Target length: ~'' @ showNat (nat \<lceil>real n / 2\<rceil>) @ '' tokens'')"
  proof
    assume "n < 2 ^ 53"
    then have e: "numberToString (ceilDiv n 2) = showNat (nat \<lceil>real n / 2\<rceil>)"
      using safe b by simp
    from a show "includes_str (buildCompressionPrompt c n t)
          (''Target length: ~'' @ showNat (nat \<lceil>real n / 2\<rceil>) @ '' tokens'')"
      unfolding e .
  qed
  have d: "includes_str (formatPrompt c n r t) (numberOrEmpty n @ ''/'' @ numberOrEmpty r)"
    using client by (simp add: includes_str_def)
  show ?thesis by (intro conjI a b c d)
qed

theorem prompts_state_the_target_witness:
  "(501 :: nat) < 2 ^ 53
   \<and> includes_str (buildCompressionPrompt (repeated 2004) 501 ''note'') ''Target length: ~251 tokens''
   \<and> includes_str (formatPrompt (repeated 2004) 501 2 ''note'') ''501/2''"
proof -
  have s: "(501 :: nat) < 2 ^ 53" by simp
  have "nat \<lceil>real 501 / 2\<rceil> = 251" by simp
  then have a: "showNat (nat \<lceil>real 501 / 2\<rceil>) = ''251''"
    by (simp add: showNat.simps digitChar_def)
  have b: "numberOrEmpty 501 @ ''/'' @ numberOrEmpty 2 = ''501/2''"
    by (simp add: numberOrEmpty_def numberToString_def showNat.simps digitChar_def)
  note t = prompts_state_the_target [of "repeated 2004" 501 "''note''" 2]
  from t s have c: "includes_str (buildCompressionPrompt (repeated 2004) 501 ''note'')
      (''Target length: ~'' @ showNat (nat \<lceil>real 501 / 2\<rceil>) @ '' tokens'')"
    by blast
  from t have d: "includes_str (formatPrompt (repeated 2004) 501 2 ''note'')
      (numberOrEmpty 501 @ ''/'' @ numberOrEmpty 2)"
    by blast
  from c have c': "includes_str (buildCompressionPrompt (repeated 2004) 501 ''note'')
      ''Target length: ~251 tokens''"
    unfolding a by simp
  from d have d': "includes_str (formatPrompt (repeated 2004) 501 2 ''note'') ''501/2''"
    unfolding b .
  show ?thesis by (intro conjI s c' d')
qed

section \<open>What the extractors return\<close>

lemma runs_sound:
  "(n', b', r) \<in> set (drop k (runs c n b s))
   \<Longrightarrow> \<exists>pre. s = pre @ r \<and> n' = n + length pre \<and> k \<le> length pre \<and> list_all (inClass c) pre"
proof (induction s arbitrary: n b k)
  case Nil
  then show ?case by (cases k) auto
next
  case (Cons x xs)
  show ?case
  proof (cases k)
    case 0
    with Cons.prems
    have "(n', b', r) = (n, b, x # xs)
          \<or> (inClass c x \<and> (n', b', r) \<in> set (drop 0 (runs c (Suc n) (Some x) xs)))"
      by (auto split: if_splits)
    then show ?thesis
    proof
      assume "(n', b', r) = (n, b, x # xs)"
      then show ?thesis using 0 by (intro exI [of _ "[]"]) simp
    next
      assume a: "inClass c x \<and> (n', b', r) \<in> set (drop 0 (runs c (Suc n) (Some x) xs))"
      then obtain pre where "xs = pre @ r" "n' = Suc n + length pre" "list_all (inClass c) pre"
        using Cons.IH [of 0 "Suc n" "Some x"] by auto
      with a 0 show ?thesis by (intro exI [of _ "x # pre"]) simp
    qed
  next
    case (Suc j)
    with Cons.prems
    have a: "inClass c x" "(n', b', r) \<in> set (drop j (runs c (Suc n) (Some x) xs))"
      by (auto split: if_splits)
    then obtain pre where
      "xs = pre @ r" "n' = Suc n + length pre" "j \<le> length pre" "list_all (inClass c) pre"
      using Cons.IH [of j "Suc n" "Some x"] by auto
    with a Suc show ?thesis by (intro exI [of _ "x # pre"]) simp
  qed
qed

lemma matches_sound:
  "(n', b', r) \<in> set (matches rs p) \<Longrightarrow>
   \<exists>m. snd (snd p) = m @ r \<and> n' = fst p + length m \<and> fits rs m"
proof (induction rs p arbitrary: n' b' r rule: matches.induct)
  case (1 p)
  then show ?case by (auto intro: fits_Nil)
next
  case (2 rs n b s)
  from "2.prems" have a: "atBoundary b s" and mem: "(n', b', r) \<in> set (matches rs (n, b, s))"
    by (auto split: if_splits)
  from "2.IH" [OF a mem] obtain m where "s = m @ r" "n' = n + length m" "fits rs m" by auto
  then show ?case by (intro exI [of _ m]) (auto intro: fits_Bnd)
next
  case (3 c rs n b s)
  show ?case
  proof (cases s)
    case Nil
    with 3 show ?thesis by simp
  next
    case (Cons x xs)
    with "3.prems" have x: "inClass c x" and
      mem: "(n', b', r) \<in> set (matches rs (Suc n, Some x, xs))"
      by (auto split: if_splits)
    from "3.IH" [OF Cons x mem] obtain m where
      "xs = m @ r" "n' = Suc n + length m" "fits rs m" by auto
    with x Cons show ?thesis by (intro exI [of _ "x # m"]) (auto intro: fits_One)
  qed
next
  case (4 c k rs n b s)
  from "4.prems" obtain q where
    q: "q \<in> set (rev (drop k (runs c n b s)))" and mem: "(n', b', r) \<in> set (matches rs q)"
    by auto
  obtain qn qb qs where qq: "q = (qn, qb, qs)" by (cases q)
  from q qq have "(qn, qb, qs) \<in> set (drop k (runs c n b s))" by simp
  from runs_sound [OF this] obtain pre where
    pre: "s = pre @ qs" "qn = n + length pre" "k \<le> length pre" "list_all (inClass c) pre"
    by auto
  from "4.IH" [OF q mem] qq obtain m where
    m: "qs = m @ r" "n' = qn + length m" "fits rs m" by auto
  from pre m show ?case by (intro exI [of _ "pre @ m"]) (auto intro: fits_Rep)
next
  case (5 os rs p)
  from "5.prems" consider
    q where "q \<in> set (matches os p)" "(n', b', r) \<in> set (matches rs q)"
    | "(n', b', r) \<in> set (matches rs p)"
    by auto
  then show ?case
  proof cases
    case 1
    obtain qn qb qs where qq: "q = (qn, qb, qs)" by (cases q)
    from "5.IH"(1) [of qn qb qs] 1(1) qq obtain m1 where
      m1: "snd (snd p) = m1 @ qs" "qn = fst p + length m1" "fits os m1" by auto
    from "5.IH"(2) [OF 1(1) 1(2)] qq obtain m2 where
      m2: "qs = m2 @ r" "n' = qn + length m2" "fits rs m2" by auto
    from m1 m2 show ?thesis by (intro exI [of _ "m1 @ m2"]) (auto intro: fits_Opt)
  next
    case 2
    from "5.IH"(3) [OF 2] show ?thesis by (auto intro: fits_Skip)
  qed
qed

lemma matchAt_sound:
  assumes "matchAt rs b s = Some n"
  shows "fits rs (take n s)"
proof -
  from assms obtain b' r ps where "matches rs (0, b, s) = (n, b', r) # ps"
    by (auto simp: matchAt_def split: list.splits)
  then have "(n, b', r) \<in> set (matches rs (0, b, s))" by simp
  from matches_sound [OF this] obtain m where "s = m @ r" "n = length m" "fits rs m" by auto
  then show ?thesis by simp
qed

lemma scan_sound:
  "Matched m \<in> set (scan rs k b s) \<Longrightarrow> fits rs m"
proof (induction s arbitrary: k b)
  case Nil
  then have "matchAt rs b [] \<noteq> None" and "m = []" by (auto split: if_splits)
  then obtain n where "matchAt rs b [] = Some n" by auto
  from matchAt_sound [OF this] \<open>m = []\<close> show ?case by simp
next
  case (Cons x xs)
  show ?case
  proof (cases "0 < k")
    case True
    with Cons.prems have "Matched m \<in> set (scan rs (k - 1) (Some x) xs)" by simp
    then show ?thesis by (rule Cons.IH)
  next
    case False
    show ?thesis
    proof (cases "matchAt rs b (x # xs)")
      case None
      with False Cons.prems have "Matched m \<in> set (scan rs 0 (Some x) xs)" by simp
      then show ?thesis by (rule Cons.IH)
    next
      case (Some n)
      show ?thesis
      proof (cases n)
        case 0
        with Some False Cons.prems
        have "m = [] \<or> Matched m \<in> set (scan rs 0 (Some x) xs)" by auto
        then show ?thesis
        proof
          assume "m = []"
          with matchAt_sound [OF Some] 0 show ?thesis by simp
        next
          assume "Matched m \<in> set (scan rs 0 (Some x) xs)"
          then show ?thesis by (rule Cons.IH)
        qed
      next
        case (Suc j)
        with Some False Cons.prems
        have "m = take (Suc j) (x # xs) \<or> Matched m \<in> set (scan rs j (Some x) xs)" by auto
        then show ?thesis
        proof
          assume "m = take (Suc j) (x # xs)"
          with matchAt_sound [OF Some] Suc show ?thesis by simp
        next
          assume "Matched m \<in> set (scan rs j (Some x) xs)"
          then show ?thesis by (rule Cons.IH)
        qed
      qed
    qed
  qed
qed

lemma matchAll_sound: "m \<in> set (matchAll rs s) \<Longrightarrow> fits rs m"
proof -
  assume "m \<in> set (matchAll rs s)"
  then have "Matched m \<in> set (scan rs 0 None s)"
    by (auto simp: matchAll_def split: piece.splits)
  then show ?thesis by (rule scan_sound)
qed


lemma fits_number: "fits numberRx m \<Longrightarrow> numericLiteral m"
proof -
  assume "fits numberRx m"
  then obtain whole m' where
    m: "m = whole @ m'" "list_all isDigit whole" "whole \<noteq> []"
    and rest: "fits [Opt [One (Lit (CHR ''.'')), Rep Digit 1], Bnd] m'"
    unfolding numberRx_def
    by (elim fits_BndE fits_RepE) (fastforce simp: list_all_iff)
  from rest consider "m' = []"
    | frac where "m' = CHR ''.'' # frac" "list_all isDigit frac" "frac \<noteq> []"
    by (elim fits_OptE fits_BndE fits_OneE fits_RepE fits_NilE) (fastforce simp: list_all_iff)+
  then show ?thesis
  proof cases
    case 1
    from m 1 have tw: "takeWhile isDigit m = m" "dropWhile isDigit m = []"
      by (simp_all add: list_all_iff)
    show ?thesis unfolding numericLiteral_def Let_def tw using m 1 by simp
  next
    case 2
    have dot: "\<not> isDigit (CHR ''.'')" by (simp add: char_class_defs)
    from m 2 dot have tw: "takeWhile isDigit m = whole" "dropWhile isDigit m = CHR ''.'' # frac"
      by (simp_all add: list_all_iff takeWhile_append2 dropWhile_append2)
    show ?thesis unfolding numericLiteral_def Let_def tw using m 2 by simp
  qed
qed

lemma fits_properNoun: "fits properNounRx m \<Longrightarrow> capitalizedWord m"
  unfolding properNounRx_def
  by (elim fits_BndE fits_OneE fits_RepE fits_NilE)
     (auto simp: capitalizedWord_def list_all_iff)

lemma fits_technical: "fits technicalRx m \<Longrightarrow> acronym m"
  unfolding technicalRx_def
  by (elim fits_BndE fits_RepE fits_NilE) (auto simp: acronym_def list_all_iff)

lemma fits_word: "fits wordRx m \<Longrightarrow> m \<noteq> [] \<and> list_all (\<lambda>c. isLower c \<or> isDigit c) m"
  unfolding wordRx_def
  by (elim fits_BndE fits_RepE fits_NilE) (auto simp: list_all_iff)

lemma concat_map_concat:
  "concat (map (\<lambda>x. concat (map g (h x))) xs) = concat (map g (concat (map h xs)))"
  by (induction xs) simp_all

lemma matches_append:
  "matches (os @ rs) p = concat (map (matches rs) (matches os p))"
proof (induction os arbitrary: p)
  case Nil
  show ?case by simp
next
  case (Cons r os)
  obtain n b s where p: "p = (n, b, s)" by (cases p)
  have IH: "matches (os @ rs) = (\<lambda>q. concat (map (matches rs) (matches os q)))"
    using Cons.IH by auto
  show ?case
  proof (cases r)
    case Bnd
    then show ?thesis by (simp add: p IH)
  next
    case (One c)
    then show ?thesis by (simp add: p IH split: list.split)
  next
    case (Rep c k)
    then show ?thesis by (simp add: p IH concat_map_concat)
  next
    case (Opt g)
    then show ?thesis by (simp add: IH concat_map_concat)
  qed
qed

lemma matches_Rep_Suc:
  "matches (Rep c (Suc j) # rest) (n, b, x # s)
   = (if inClass c x then matches (Rep c j # rest) (Suc n, Some x, s) else [])"
  by simp

lemma matches_Rep_0:
  "matches (Rep c 0 # rest) (n, b, x # s)
   = (if inClass c x then matches (Rep c 0 # rest) (Suc n, Some x, s) else [])
     @ matches rest (n, b, x # s)"
  by simp

lemma matches_Rep_Nil:
  "matches (Rep c k # rest) (n, b, []) = (if k = 0 then matches rest (n, b, []) else [])"
  by (cases k) simp_all

lemma matches_Rep_word:
  assumes cls: "\<And>x. inClass c x \<Longrightarrow> isWordChar x"
      and dead: "\<And>m q y t. isWordChar q \<Longrightarrow> isWordChar y \<Longrightarrow> matches rest (m, Some q, y # t) = []"
      and stop: "r = [] \<or> \<not> isWordChar (hd r)"
  shows "list_all isWordChar u \<Longrightarrow> isWordChar p \<Longrightarrow>
         matches (Rep c k # rest) (n, Some p, u @ r)
         = (if list_all (inClass c) u \<and> k \<le> length u
            then matches rest (n + length u, Some (last (p # u)), r) else [])"
proof (induction u arbitrary: n p k)
  case Nil
  show ?case
  proof (cases r)
    case Nil
    then show ?thesis by (simp add: matches_Rep_Nil del: matches.simps)
  next
    case (Cons y ys)
    with stop cls have "\<not> inClass c y" by auto
    then show ?thesis using Cons by (cases k) (simp_all add: matches_Rep_Suc matches_Rep_0 del: matches.simps)
  qed
next
  case (Cons x xs)
  from Cons.prems have x: "isWordChar x" and xs: "list_all isWordChar xs" by simp_all
  note IH = Cons.IH [OF xs x]
  have d: "matches rest (n, Some p, x # xs @ r) = []"
    by (rule dead [OF Cons.prems(2) x])
  show ?case
  proof (cases k)
    case 0
    then show ?thesis by (simp add: matches_Rep_0 IH d del: matches.simps)
  next
    case (Suc j)
    then show ?thesis by (simp add: matches_Rep_Suc IH del: matches.simps)
  qed
qed


lemma atBoundary_start:
  "\<forall>c. b = Some c \<longrightarrow> \<not> isWordChar c \<Longrightarrow> isWordChar x \<Longrightarrow> atBoundary b (x # xs)"
  by (cases b) (simp_all add: atBoundary_def)

lemma atBoundary_stop:
  "isWordChar q \<Longrightarrow> r = [] \<or> \<not> isWordChar (hd r) \<Longrightarrow> atBoundary (Some q) r"
  by (cases r) (auto simp: atBoundary_def)

lemma atBoundary_inside:
  "isWordChar q \<Longrightarrow> isWordChar y \<Longrightarrow> \<not> atBoundary (Some q) (y # t)"
  by (simp add: atBoundary_def)

lemma dead_Bnd:
  "isWordChar q \<Longrightarrow> isWordChar y \<Longrightarrow> matches (Bnd # rs) (m, Some q, y # t) = []"
  by (simp add: atBoundary_def)

lemma last_word: "isWordChar x \<Longrightarrow> list_all isWordChar u \<Longrightarrow> isWordChar (last (x # u))"
  by (induction u arbitrary: x) simp_all

lemma class_word:
  "inClass Digit x \<Longrightarrow> isWordChar x" "inClass Upper x \<Longrightarrow> isWordChar x"
  "inClass Lower x \<Longrightarrow> isWordChar x" "inClass LowerOrDigit x \<Longrightarrow> isWordChar x"
  by (auto simp: isWordChar_def)

lemma matches_Rep_Bnd_word:
  assumes "\<And>x. inClass c x \<Longrightarrow> isWordChar x"
      and "list_all isWordChar u" and "isWordChar p" and "r = [] \<or> \<not> isWordChar (hd r)"
  shows "matches [Rep c k, Bnd] (n, Some p, u @ r)
         = (if list_all (inClass c) u \<and> k \<le> length u
            then [(n + length u, Some (last (p # u)), r)] else [])"
proof -
  have "matches [Rep c k, Bnd] (n, Some p, u @ r)
        = (if list_all (inClass c) u \<and> k \<le> length u
           then matches [Bnd] (n + length u, Some (last (p # u)), r) else [])"
    by (rule matches_Rep_word [OF assms(1) dead_Bnd assms(4) assms(2) assms(3)])
  moreover have "atBoundary (Some (last (p # u))) r"
    by (rule atBoundary_stop [OF last_word [OF assms(3) assms(2)] assms(4)])
  ultimately show ?thesis by simp
qed

lemma matchAt_technical_word:
  assumes "\<forall>c. b = Some c \<longrightarrow> \<not> isWordChar c" and "isWordChar x"
      and "list_all isWordChar u" and "r = [] \<or> \<not> isWordChar (hd r)"
  shows "matchAt technicalRx b (x # u @ r)
         = (if acronym (x # u) then Some (Suc (length u)) else None)"
proof -
  have "matches technicalRx (0, b, x # u @ r)
        = (if isUpper x then matches [Rep Upper (Suc 0), Bnd] (Suc 0, Some x, u @ r) else [])"
    using atBoundary_start [OF assms(1,2)]
    by (simp add: technicalRx_def numeral_2_eq_2 matches_Rep_Suc del: matches.simps(4))
  also have "matches [Rep Upper (Suc 0), Bnd] (Suc 0, Some x, u @ r)
        = (if list_all (inClass Upper) u \<and> Suc 0 \<le> length u
           then [(Suc 0 + length u, Some (last (x # u)), r)] else [])"
    by (rule matches_Rep_Bnd_word [OF class_word(2) assms(3,2,4)])
  finally show ?thesis
    by (auto simp: matchAt_def acronym_def list_all_iff)
qed

lemma matchAt_properNoun_word:
  assumes "\<forall>c. b = Some c \<longrightarrow> \<not> isWordChar c" and "isWordChar x"
      and "list_all isWordChar u" and "r = [] \<or> \<not> isWordChar (hd r)"
  shows "matchAt properNounRx b (x # u @ r)
         = (if capitalizedWord (x # u) then Some (Suc (length u)) else None)"
proof -
  have "matches properNounRx (0, b, x # u @ r)
        = (if isUpper x then matches [Rep Lower (Suc 0), Bnd] (Suc 0, Some x, u @ r) else [])"
    using atBoundary_start [OF assms(1,2)]
    by (simp add: properNounRx_def del: matches.simps(4))
  also have "matches [Rep Lower (Suc 0), Bnd] (Suc 0, Some x, u @ r)
        = (if list_all (inClass Lower) u \<and> Suc 0 \<le> length u
           then [(Suc 0 + length u, Some (last (x # u)), r)] else [])"
    by (rule matches_Rep_Bnd_word [OF class_word(3) assms(3,2,4)])
  finally show ?thesis
    by (cases u) (auto simp: matchAt_def capitalizedWord_def list_all_iff)
qed

lemma matchAt_word_word:
  assumes "\<forall>c. b = Some c \<longrightarrow> \<not> isWordChar c" and "isWordChar x"
      and "list_all isWordChar u" and "r = [] \<or> \<not> isWordChar (hd r)"
  shows "matchAt wordRx b (x # u @ r)
         = (if list_all (\<lambda>c. isLower c \<or> isDigit c) (x # u) then Some (Suc (length u)) else None)"
proof -
  have "matches wordRx (0, b, x # u @ r)
        = (if inClass LowerOrDigit x
           then matches [Rep LowerOrDigit 0, Bnd] (Suc 0, Some x, u @ r) else [])"
    using atBoundary_start [OF assms(1,2)]
    by (simp add: wordRx_def matches_Rep_Suc del: matches.simps(4))
  also have "matches [Rep LowerOrDigit 0, Bnd] (Suc 0, Some x, u @ r)
        = (if list_all (inClass LowerOrDigit) u \<and> 0 \<le> length u
           then [(Suc 0 + length u, Some (last (x # u)), r)] else [])"
    by (rule matches_Rep_Bnd_word [OF class_word(4) assms(3,2,4)])
  finally show ?thesis
    by (auto simp: matchAt_def list_all_iff)
qed


lemma scan_inside_word:
  assumes inside: "\<And>p x xs. isWordChar p \<Longrightarrow> isWordChar x \<Longrightarrow> matchAt rx (Some p) (x # xs) = None"
  shows "isWordChar p \<Longrightarrow> list_all isWordChar u \<Longrightarrow>
         scan rx 0 (Some p) (u @ r) = map Plain u @ scan rx 0 (Some (last (p # u))) r"
proof (induction u arbitrary: p)
  case Nil
  show ?case by simp
next
  case (Cons x xs)
  from Cons.prems have x: "isWordChar x" and xs: "list_all isWordChar xs" by simp_all
  have "scan rx 0 (Some p) ((x # xs) @ r) = Plain x # scan rx 0 (Some x) (xs @ r)"
    by (simp add: inside [OF Cons.prems(1) x])
  then show ?case by (simp add: Cons.IH [OF x xs])
qed

lemma word_split:
  "xs = takeWhile isWordChar xs @ dropWhile isWordChar xs"
  "list_all isWordChar (takeWhile isWordChar xs)"
  "dropWhile isWordChar xs = [] \<or> \<not> isWordChar (hd (dropWhile isWordChar xs))"
proof -
  show "xs = takeWhile isWordChar xs @ dropWhile isWordChar xs" by simp
  show "list_all isWordChar (takeWhile isWordChar xs)"
    by (auto simp: list_all_iff dest: set_takeWhileD)
  show "dropWhile isWordChar xs = [] \<or> \<not> isWordChar (hd (dropWhile isWordChar xs))"
    using hd_dropWhile [of isWordChar xs] by blast
qed

lemma scan_whole_words:
  assumes e: "\<And>b. matchAt rx b [] = None"
      and gap: "\<And>b x xs. \<not> isWordChar x \<Longrightarrow> matchAt rx b (x # xs) = None"
      and inside: "\<And>p x xs. isWordChar p \<Longrightarrow> isWordChar x \<Longrightarrow> matchAt rx (Some p) (x # xs) = None"
      and start: "\<And>b x u r. \<forall>c. b = Some c \<longrightarrow> \<not> isWordChar c \<Longrightarrow> isWordChar x
                   \<Longrightarrow> list_all isWordChar u \<Longrightarrow> r = [] \<or> \<not> isWordChar (hd r)
                   \<Longrightarrow> matchAt rx b (x # u @ r)
                       = (if P (x # u) then Some (Suc (length u)) else None)"
  shows "(\<forall>c. b = Some c \<longrightarrow> \<not> isWordChar c) \<or> s = [] \<or> \<not> isWordChar (hd s) \<Longrightarrow>
         concat (map (\<lambda>p. case p of Plain _ \<Rightarrow> [] | Matched m \<Rightarrow> [m]) (scan rx 0 b s))
         = filter P (wholeWords s)"
proof (induction s arbitrary: b rule: wholeWords.induct)
  case 1
  show ?case by (simp add: e)
next
  case (2 x xs)
  let ?M = "\<lambda>ps. concat (map (\<lambda>p. case p of Plain _ \<Rightarrow> [] | Matched m \<Rightarrow> [m]) ps)"
  let ?u = "takeWhile isWordChar xs"
  let ?r = "dropWhile isWordChar xs"
  show ?case
  proof (cases "isWordChar x")
    case False
    have "scan rx 0 b (x # xs) = Plain x # scan rx 0 (Some x) xs"
      by (simp add: gap [OF False])
    moreover have "?M (scan rx 0 (Some x) xs) = filter P (wholeWords xs)"
      using False by (intro "2.IH"(2)) simp_all
    ultimately show ?thesis using False by simp
  next
    case True
    with "2.prems" have nw: "\<forall>c. b = Some c \<longrightarrow> \<not> isWordChar c" by simp
    have IH: "?M (scan rx 0 b' ?r) = filter P (wholeWords ?r)" for b'
      using word_split(3) [of xs] by (intro "2.IH"(1) [OF True]) blast
    have m: "matchAt rx b (x # ?u @ ?r) = (if P (x # ?u) then Some (Suc (length ?u)) else None)"
      by (rule start [OF nw True word_split(2,3)])
    have xs: "x # xs = x # ?u @ ?r" by simp
    show ?thesis
    proof (cases "P (x # ?u)")
      case p: True
      have "scan rx 0 b (x # ?u @ ?r)
            = Matched (x # ?u) # scan rx (length ?u) (Some x) (?u @ ?r)"
        using m p by (simp del: takeWhile_dropWhile_id)
      also have "scan rx (length ?u) (Some x) (?u @ ?r)
            = scan rx 0 (if ?u = [] then Some x else Some (last ?u)) ?r"
        by (rule scan_skip)
      finally have "?M (scan rx 0 b (x # ?u @ ?r)) = (x # ?u) # filter P (wholeWords ?r)"
        by (simp add: IH del: takeWhile_dropWhile_id)
      then show ?thesis using p True by simp
    next
      case np: False
      have "scan rx 0 b (x # ?u @ ?r) = Plain x # scan rx 0 (Some x) (?u @ ?r)"
        using m np by (simp del: takeWhile_dropWhile_id)
      also have "scan rx 0 (Some x) (?u @ ?r) = map Plain ?u @ scan rx 0 (Some (last (x # ?u))) ?r"
        by (rule scan_inside_word [OF inside True word_split(2)])
      finally have "?M (scan rx 0 b (x # ?u @ ?r)) = filter P (wholeWords ?r)"
        by (simp add: IH comp_def del: takeWhile_dropWhile_id)
      then show ?thesis using np True by simp
    qed
  qed
qed


lemma matchAt_inside_word:
  "isWordChar p \<Longrightarrow> isWordChar x \<Longrightarrow> matchAt (Bnd # rs) (Some p) (x # xs) = None"
  by (simp add: matchAt_def atBoundary_def)

lemma not_word_not_class:
  "\<not> isWordChar x \<Longrightarrow> \<not> isDigit x \<and> \<not> isUpper x \<and> \<not> isLower x"
  by (simp add: isWordChar_def)

lemma matchAll_technical: "matchAll technicalRx s = filter acronym (wholeWords s)"
  unfolding matchAll_def
proof (rule scan_whole_words)
  show "matchAt technicalRx b [] = None" for b
    by (simp add: matchAt_def technicalRx_def)
  show "matchAt technicalRx b (x # xs) = None" if "\<not> isWordChar x" for b x xs
    using not_word_not_class [OF that] by (simp add: matchAt_def technicalRx_def)
  show "matchAt technicalRx (Some p) (x # xs) = None" if "isWordChar p" "isWordChar x" for p x xs
    unfolding technicalRx_def by (rule matchAt_inside_word [OF that])
  show "matchAt technicalRx b (x # u @ r) = (if acronym (x # u) then Some (Suc (length u)) else None)"
    if "\<forall>c. b = Some c \<longrightarrow> \<not> isWordChar c" "isWordChar x" "list_all isWordChar u"
      "r = [] \<or> \<not> isWordChar (hd r)" for b x u r
    by (rule matchAt_technical_word [OF that])
  show "(\<forall>c. None = Some c \<longrightarrow> \<not> isWordChar c) \<or> s = [] \<or> \<not> isWordChar (hd s)" by simp
qed

lemma matchAll_properNoun: "matchAll properNounRx s = filter capitalizedWord (wholeWords s)"
  unfolding matchAll_def
proof (rule scan_whole_words)
  show "matchAt properNounRx b [] = None" for b
    by (simp add: matchAt_def properNounRx_def)
  show "matchAt properNounRx b (x # xs) = None" if "\<not> isWordChar x" for b x xs
    using not_word_not_class [OF that] by (simp add: matchAt_def properNounRx_def)
  show "matchAt properNounRx (Some p) (x # xs) = None" if "isWordChar p" "isWordChar x" for p x xs
    unfolding properNounRx_def by (rule matchAt_inside_word [OF that])
  show "matchAt properNounRx b (x # u @ r)
        = (if capitalizedWord (x # u) then Some (Suc (length u)) else None)"
    if "\<forall>c. b = Some c \<longrightarrow> \<not> isWordChar c" "isWordChar x" "list_all isWordChar u"
      "r = [] \<or> \<not> isWordChar (hd r)" for b x u r
    by (rule matchAt_properNoun_word [OF that])
  show "(\<forall>c. None = Some c \<longrightarrow> \<not> isWordChar c) \<or> s = [] \<or> \<not> isWordChar (hd s)" by simp
qed

lemma matchAll_words:
  "matchAll wordRx s = filter (list_all (\<lambda>c. isLower c \<or> isDigit c)) (wholeWords s)"
  unfolding matchAll_def
proof (rule scan_whole_words)
  show "matchAt wordRx b [] = None" for b
    by (simp add: matchAt_def wordRx_def)
  show "matchAt wordRx b (x # xs) = None" if "\<not> isWordChar x" for b x xs
    using not_word_not_class [OF that] by (simp add: matchAt_def wordRx_def)
  show "matchAt wordRx (Some p) (x # xs) = None" if "isWordChar p" "isWordChar x" for p x xs
    unfolding wordRx_def by (rule matchAt_inside_word [OF that])
  show "matchAt wordRx b (x # u @ r)
        = (if list_all (\<lambda>c. isLower c \<or> isDigit c) (x # u) then Some (Suc (length u)) else None)"
    if "\<forall>c. b = Some c \<longrightarrow> \<not> isWordChar c" "isWordChar x" "list_all isWordChar u"
      "r = [] \<or> \<not> isWordChar (hd r)" for b x u r
    by (rule matchAt_word_word [OF that])
  show "(\<forall>c. None = Some c \<longrightarrow> \<not> isWordChar c) \<or> s = [] \<or> \<not> isWordChar (hd s)" by simp
qed


lemma inClass_Digit: "inClass Digit = isDigit"
  by (rule ext) simp

lemma matches_fraction:
  "matches [Rep Digit (Suc 0), Bnd] (n, b, ys)
   = (if takeWhile isWordChar ys \<noteq> [] \<and> list_all isDigit (takeWhile isWordChar ys)
      then [(n + length (takeWhile isWordChar ys), Some (last (takeWhile isWordChar ys)),
             dropWhile isWordChar ys)]
      else [])"
proof (cases ys)
  case Nil
  then show ?thesis by (simp add: matches_Rep_Nil del: matches.simps)
next
  case (Cons y t)
  show ?thesis
  proof (cases "isDigit y")
    case False
    then show ?thesis
      by (simp add: Cons matches_Rep_Suc del: matches.simps)
  next
    case True
    then have w: "isWordChar y" by (simp add: isWordChar_def)
    have "matches [Rep Digit (Suc 0), Bnd] (n, b, y # takeWhile isWordChar t @ dropWhile isWordChar t)
          = matches [Rep Digit 0, Bnd]
              (Suc n, Some y, takeWhile isWordChar t @ dropWhile isWordChar t)"
      using True by (simp only: matches_Rep_Suc inClass.simps if_True)
    also have "\<dots> = (if list_all (inClass Digit) (takeWhile isWordChar t)
                         \<and> 0 \<le> length (takeWhile isWordChar t)
                      then [(Suc n + length (takeWhile isWordChar t),
                             Some (last (y # takeWhile isWordChar t)), dropWhile isWordChar t)]
                      else [])"
      by (rule matches_Rep_Bnd_word [OF class_word(1) word_split(2) w word_split(3)])
    finally show ?thesis
      using True w by (simp add: Cons inClass_Digit del: matches.simps)
  qed
qed

lemma matchAt_number_word:
  assumes "\<forall>c. b = Some c \<longrightarrow> \<not> isWordChar c" and "isWordChar x"
      and "list_all isWordChar u" and "r = [] \<or> \<not> isWordChar (hd r)"
  shows "matchAt numberRx b (x # u @ r)
         = (if \<not> list_all isDigit (x # u) then None
            else case r of
                   [] \<Rightarrow> Some (Suc (length u))
                 | d # ys \<Rightarrow>
                     if d = CHR ''.'' \<and> takeWhile isWordChar ys \<noteq> []
                        \<and> list_all isDigit (takeWhile isWordChar ys)
                     then Some (Suc (length u) + Suc (length (takeWhile isWordChar ys)))
                     else Some (Suc (length u)))"
proof -
  let ?g = "[One (Lit (CHR ''.'')), Rep Digit (Suc 0)]"
  let ?q = "last (x # u)"
  have q: "isWordChar ?q" by (rule last_word [OF assms(2,3)])
  have dead: "matches [Opt ?g, Bnd] (m, Some p, y # t) = []"
    if "isWordChar p" "isWordChar y" for m p y t
  proof -
    from that(2) have "y \<noteq> CHR ''.''" by (auto simp: char_class_defs)
    then show ?thesis using that by (simp add: atBoundary_def)
  qed
  have "matches numberRx (0, b, x # u @ r)
        = (if isDigit x then matches [Rep Digit 0, Opt ?g, Bnd] (Suc 0, Some x, u @ r) else [])"
    using atBoundary_start [OF assms(1,2)]
    by (simp add: numberRx_def matches_Rep_Suc del: matches.simps(4,5))
  also have "matches [Rep Digit 0, Opt ?g, Bnd] (Suc 0, Some x, u @ r)
        = (if list_all (inClass Digit) u \<and> 0 \<le> length u
           then matches [Opt ?g, Bnd] (Suc 0 + length u, Some ?q, r) else [])"
    by (rule matches_Rep_word [OF class_word(1) dead assms(4,3,2)])
  also have "matches [Opt ?g, Bnd] (Suc 0 + length u, Some ?q, r)
        = matches (?g @ [Bnd]) (Suc 0 + length u, Some ?q, r) @ [(Suc 0 + length u, Some ?q, r)]"
    using atBoundary_stop [OF q assms(4)]
    by (simp only: matches.simps(5) matches_append [symmetric]) simp
  also have "matches (?g @ [Bnd]) (Suc 0 + length u, Some ?q, r)
        = (case r of
             [] \<Rightarrow> []
           | d # ys \<Rightarrow>
               if d = CHR ''.'' \<and> takeWhile isWordChar ys \<noteq> []
                  \<and> list_all isDigit (takeWhile isWordChar ys)
               then [(Suc (Suc 0 + length u) + length (takeWhile isWordChar ys),
                      Some (last (takeWhile isWordChar ys)), dropWhile isWordChar ys)]
               else [])"
    by (cases r) (simp_all add: matches_fraction del: matches.simps(4))
  finally show ?thesis
    by (cases r) (auto simp: matchAt_def inClass_Digit)
qed


lemma scan_numbers:
  "(\<forall>c. b = Some c \<longrightarrow> \<not> isWordChar c) \<or> s = [] \<or> \<not> isWordChar (hd s) \<Longrightarrow>
   concat (map (\<lambda>p. case p of Plain _ \<Rightarrow> [] | Matched m \<Rightarrow> [m]) (scan numberRx 0 b s))
   = numericLiterals s"
proof (induction s arbitrary: b rule: numericLiterals.induct)
  case 1
  show ?case by (simp add: matchAt_def numberRx_def)
next
  case (2 x xs)
  let ?M = "\<lambda>ps. concat (map (\<lambda>p. case p of Plain _ \<Rightarrow> [] | Matched m \<Rightarrow> [m]) ps)"
  let ?u = "takeWhile isWordChar xs"
  let ?r = "dropWhile isWordChar xs"
  have inside: "matchAt numberRx (Some p) (y # ys) = None" if "isWordChar p" "isWordChar y" for p y ys
    unfolding numberRx_def by (rule matchAt_inside_word [OF that])
  show ?case
  proof (cases "isWordChar x")
    case False
    have "matchAt numberRx b (x # xs) = None"
      using not_word_not_class [OF False] by (simp add: matchAt_def numberRx_def)
    then have "scan numberRx 0 b (x # xs) = Plain x # scan numberRx 0 (Some x) xs" by simp
    moreover have "?M (scan numberRx 0 (Some x) xs) = numericLiterals xs"
      using False by (intro "2.IH"(1)) simp_all
    ultimately show ?thesis using False by simp
  next
    case True
    with "2.prems" have nw: "\<forall>c. b = Some c \<longrightarrow> \<not> isWordChar c" by simp
    have m: "matchAt numberRx b (x # xs)
         = (if \<not> list_all isDigit (x # ?u) then None
            else case ?r of
                   [] \<Rightarrow> Some (Suc (length ?u))
                 | d # ys \<Rightarrow>
                     if d = CHR ''.'' \<and> takeWhile isWordChar ys \<noteq> []
                        \<and> list_all isDigit (takeWhile isWordChar ys)
                     then Some (Suc (length ?u) + Suc (length (takeWhile isWordChar ys)))
                     else Some (Suc (length ?u)))"
      using matchAt_number_word [OF nw True word_split(2) [of xs] word_split(3) [of xs]]
      by simp
    have skip: "scan numberRx (length ?u) (Some x) xs
                = scan numberRx 0 (if ?u = [] then Some x else Some (last ?u)) ?r"
      using scan_skip [of numberRx ?u "Some x" ?r] by simp
    have whole: "take (Suc (length ?u)) (x # xs) = x # ?u"
      using word_split(1) [of xs] by (metis append_eq_conv_conj take_Suc_Cons)
    show ?thesis
    proof (cases "list_all isDigit (x # ?u)")
      case nd: False
      from m nd have "matchAt numberRx b (x # xs) = None" by simp
      then have "scan numberRx 0 b (x # xs) = Plain x # scan numberRx 0 (Some x) xs" by simp
      also have "scan numberRx 0 (Some x) xs
            = map Plain ?u @ scan numberRx 0 (Some (last (x # ?u))) ?r"
        using scan_inside_word [OF inside True word_split(2) [of xs],
            where r = "dropWhile isWordChar xs"]
        by simp
      finally have "?M (scan numberRx 0 b (x # xs)) = ?M (scan numberRx 0 (Some (last (x # ?u))) ?r)"
        by (simp add: comp_def)
      moreover have "?M (scan numberRx 0 (Some (last (x # ?u))) ?r) = numericLiterals ?r"
        using True nd word_split(3) [of xs] by (intro "2.IH"(2)) auto
      ultimately show ?thesis using True nd by simp
    next
      case d: True
      show ?thesis
      proof (cases ?r)
        case Nil
        have "matchAt numberRx b (x # xs) = Some (Suc (length ?u))"
          using m d unfolding Nil by simp
        then have "scan numberRx 0 b (x # xs)
              = Matched (take (Suc (length ?u)) (x # xs)) # scan numberRx (length ?u) (Some x) xs"
          by simp
        then have "?M (scan numberRx 0 b (x # xs)) = [x # ?u]"
          unfolding whole skip Nil by (simp add: matchAt_def numberRx_def)
        then show ?thesis using True d by (simp add: Nil)
      next
        case (Cons c ys)
        let ?f = "takeWhile isWordChar ys"
        let ?t = "dropWhile isWordChar ys"
        show ?thesis
        proof (cases "c = CHR ''.'' \<and> ?f \<noteq> [] \<and> list_all isDigit ?f")
          case fr: True
          have xs: "xs = (?u @ c # ?f) @ ?t"
            using Cons word_split(1) [of xs] word_split(1) [of ys] by (metis append.assoc append_Cons)
          have "matchAt numberRx b (x # xs) = Some (Suc (length (?u @ c # ?f)))"
            using m d fr unfolding Cons by simp
          then have "scan numberRx 0 b (x # xs)
                = Matched (take (Suc (length (?u @ c # ?f))) (x # xs))
                  # scan numberRx (length (?u @ c # ?f)) (Some x) xs"
            by simp
          moreover have "take (Suc (length (?u @ c # ?f))) (x # xs) = x # ?u @ c # ?f"
            using xs by (metis append_eq_conv_conj take_Suc_Cons)
          moreover have "scan numberRx (length (?u @ c # ?f)) (Some x) ((?u @ c # ?f) @ ?t)
                = scan numberRx 0 (if ?u @ c # ?f = [] then Some x else Some (last (?u @ c # ?f))) ?t"
            by (rule scan_skip)
          then have "scan numberRx (length (?u @ c # ?f)) (Some x) xs
                = scan numberRx 0 (Some (last (c # ?f))) ?t"
            using xs by simp
          moreover have "?M (scan numberRx 0 (Some (last (c # ?f))) ?t) = numericLiterals ?t"
            using True d fr word_split(3) [of ys] by (intro "2.IH"(3) [OF _ _ Cons]) auto
          ultimately have "?M (scan numberRx 0 b (x # xs)) = (x # ?u @ c # ?f) # numericLiterals ?t"
            by simp
          then show ?thesis using True d fr by (simp add: Cons)
        next
          case nf: False
          have "matchAt numberRx b (x # xs) = Some (Suc (length ?u))"
            using m d nf unfolding Cons by auto
          then have "scan numberRx 0 b (x # xs)
                = Matched (take (Suc (length ?u)) (x # xs)) # scan numberRx (length ?u) (Some x) xs"
            by simp
          then have "?M (scan numberRx 0 b (x # xs))
                = (x # ?u) # ?M (scan numberRx 0 (if ?u = [] then Some x else Some (last ?u)) (c # ys))"
            unfolding whole skip Cons by simp
          moreover have "?M (scan numberRx 0 (if ?u = [] then Some x else Some (last ?u)) (c # ys))
                = numericLiterals (c # ys)"
            using True d nf word_split(3) [of xs] unfolding Cons
            by (intro "2.IH"(4) [OF _ _ Cons]) auto
          ultimately show ?thesis using True d nf by (simp add: Cons)
        qed
      qed
    qed
  qed
qed

lemma matchAll_numbers: "matchAll numberRx s = numericLiterals s"
  unfolding matchAll_def by (rule scan_numbers) simp


lemma uniqueInOrder_Cons:
  "uniqueInOrder (x # xs) = x # filter (\<lambda>y. y \<noteq> x) (uniqueInOrder xs)"
proof -
  have "remdups (ys @ [x]) = filter (\<lambda>y. y \<noteq> x) (remdups ys) @ [x]" for ys
    by (induction ys) auto
  then show ?thesis by (simp add: uniqueInOrder_def rev_filter)
qed

lemma uniqueInOrder_firstOccurrences: "uniqueInOrder ws = firstOccurrences ws"
proof (induction ws)
  case Nil
  show ?case by (simp add: uniqueInOrder_def)
next
  case (Cons x xs)
  then show ?case by (simp add: uniqueInOrder_Cons)
qed

lemma firstIndex_Cons:
  "firstIndex (x # xs) a = (if a = x then 0 else Suc (firstIndex xs a))"
  by (auto simp: firstIndex_def)

lemma set_firstOccurrences: "set (firstOccurrences ws) = set ws"
  by (induction ws) auto

lemma sorted_firstOccurrences:
  "sorted_wrt (\<lambda>a b. firstIndex ws a < firstIndex ws b) (firstOccurrences ws)"
proof (induction ws)
  case Nil
  show ?case by simp
next
  case (Cons x xs)
  have "sorted_wrt (\<lambda>a b. firstIndex xs a < firstIndex xs b)
          (filter (\<lambda>y. y \<noteq> x) (firstOccurrences xs))"
    by (rule sorted_wrt_filter [OF Cons.IH])
  then have "sorted_wrt (\<lambda>a b. firstIndex (x # xs) a < firstIndex (x # xs) b)
          (filter (\<lambda>y. y \<noteq> x) (firstOccurrences xs))"
    by (rule sorted_wrt_mono_rel [rotated]) (simp add: firstIndex_Cons)
  then show ?case by (simp add: firstIndex_Cons)
qed

lemma wholeWords_word: "w \<noteq> [] \<Longrightarrow> list_all isWordChar w \<Longrightarrow> wholeWords w = [w]"
  by (cases w) (simp_all add: list_all_iff takeWhile_eq_all_conv [THEN iffD2]
      dropWhile_eq_Nil_conv [THEN iffD2])

lemma wholeWords_gap: "\<not> isWordChar x \<Longrightarrow> wholeWords (x # xs) = wholeWords xs"
  by simp

lemma numericLiterals_sevens: "numericLiterals (concat (replicate n ''7 '')) = replicate n ''7''"
proof (induction n)
  case 0
  show ?case by simp
next
  case (Suc n)
  have w: "isWordChar (CHR ''7'')" "\<not> isWordChar (CHR '' '')" "isDigit (CHR ''7'')"
    by (simp_all add: char_class_defs)
  show ?case using w Suc by simp
qed

lemma wholeWords_sevens: "wholeWords (concat (replicate n ''7 '')) = replicate n ''7''"
proof (induction n)
  case 0
  show ?case by simp
next
  case (Suc n)
  have w: "isWordChar (CHR ''7'')" "\<not> isWordChar (CHR '' '')"
    by (simp_all add: char_class_defs)
  show ?case using w Suc by simp
qed

lemma extractImportantWords_words:
  "extractImportantWords s
   = numericLiterals s @ take 10 (filter capitalizedWord (wholeWords s))
     @ take 5 (filter acronym (wholeWords s))"
  by (simp add: extractImportantWords_def matchAll_numbers matchAll_properNoun matchAll_technical)

lemma extractImportantWords_server_words:
  "extractImportantWords_server s
   = take 50 (filter (\<lambda>w. w \<notin> set stopWords \<and> 3 < length w) (firstOccurrences (plainWords s)))"
  by (simp add: extractImportantWords_server_def matchAll_words uniqueInOrder_firstOccurrences
        plainWords_def)


lemma upper_not_digit: "isUpper x \<Longrightarrow> \<not> isDigit x \<and> \<not> isLower x \<and> isWordChar x"
  by (auto simp: char_class_defs)

lemma lower_not_upper: "isLower x \<Longrightarrow> \<not> isUpper x \<and> isWordChar x"
  by (auto simp: char_class_defs)

lemma extractImportantWords_capitalized:
  assumes "capitalizedWord c"
  shows "extractImportantWords c = [c]"
proof -
  from assms obtain x xs where c: "c = x # xs" and x: "isUpper x" and xs: "xs \<noteq> []"
    and l: "list_all isLower xs"
    by (cases c) (auto simp: capitalizedWord_def)
  from l have w: "list_all isWordChar xs" by (auto simp: list_all_iff lower_not_upper)
  from xs l have "\<not> list_all isUpper xs" by (cases xs) (auto simp: lower_not_upper)
  then have a: "\<not> acronym c" by (simp add: c acronym_def)
  have t: "takeWhile isWordChar xs = xs" "dropWhile isWordChar xs = []"
    using w by (simp_all add: list_all_iff)
  have n: "numericLiterals c = []"
    using upper_not_digit [OF x] by (simp add: c t)
  have ww: "wholeWords c = [c]"
    using upper_not_digit [OF x] by (simp add: c t)
  show ?thesis
    using assms a by (simp add: extractImportantWords_words n ww)
qed

lemma extractImportantWords_server_plain:
  assumes "list_all (\<lambda>c. isLower c \<or> isDigit c) p" and "3 < length p" and "p \<notin> set stopWords"
  shows "extractImportantWords_server p = [p]"
proof -
  from assms(1) have "list_all (inClass LowerOrDigit) p" by (simp add: list_all_iff)
  then show ?thesis by (rule extractImportantWords_server_word [OF _ assms(2,3)])
qed

text \<open>
  C7, as stated, fails for both extractors.  The one of the semantic strategy keeps
  repetitions and stop words: \<open>7 7\<close> gives \<open>7\<close> twice, \<open>The\<close> gives \<open>The\<close>.  The one of
  the compression actions returns plain words: \<open>budget moved\<close> gives \<open>budget\<close> and
  \<open>moved\<close>, neither a number nor capitalised nor an acronym.
\<close>

theorem extractors_differ_from_the_contract:
  "\<not> distinct (extractImportantWords ''7 7'')
   \<and> extractImportantWords ''The'' = [''The'']
   \<and> ''the'' \<in> set stopWords
   \<and> extractImportantWords_server ''budget moved'' = [''budget'', ''moved'']
   \<and> \<not> numericLiteral ''budget'' \<and> \<not> capitalizedWord ''budget'' \<and> \<not> acronym ''budget''"
proof -
  have "extractImportantWords ''7 7'' = [''7'', ''7'']"
    by (simp add: extractImportantWords_def matchAll_def numberRx_def properNounRx_def
          technicalRx_def matchAt_def atBoundary_def char_class_defs)
  then have a: "\<not> distinct (extractImportantWords ''7 7'')" by simp
  have b: "extractImportantWords ''The'' = [''The'']"
    by (simp add: extractImportantWords_def matchAll_def numberRx_def properNounRx_def
          technicalRx_def matchAt_def atBoundary_def char_class_defs)
  have c: "''the'' \<in> set stopWords" by (simp add: stopWords_def)
  have d: "extractImportantWords_server ''budget moved'' = [''budget'', ''moved'']"
    by (simp add: extractImportantWords_server_def matchAll_def wordRx_def matchAt_def
          atBoundary_def char_class_defs toLowerCase_def lowerChar_def latin1Upper_def
          uniqueInOrder_def stopWords_def)
  have e: "\<not> numericLiteral ''budget''" "\<not> capitalizedWord ''budget''" "\<not> acronym ''budget''"
    by (simp_all add: numericLiteral_def capitalizedWord_def acronym_def char_class_defs)
  show ?thesis by (intro conjI a b c d e)
qed

text \<open>
  C7, amended.  The extractor of the semantic strategy returns, in this order and with
  repetitions kept, the numeric literals of the text, the first 10 of its whole words that
  are capitalised (a capital and one or more small letters) and the first 5 of its whole
  words that are acronyms (two or more capitals); every numeric literal is digits, with or
  without a point and more digits.  It has no cap: the text of \<open>n\<close> numbers \<open>7\<close> gives
  \<open>n\<close> entries.  It removes no stop word: a text that is one capitalised word, \<open>The\<close>
  for one, gives that word.  The extractor of the compression actions lower-cases the text
  and returns, of its whole words of small letters and digits, those that are longer than
  3 characters and no stop word, each once, in the order of their first occurrence, and of
  these the first 50.  Numerals and capitals play no part in its selection: a text that
  is one such word, \<open>2024\<close> for one, gives that word.
\<close>

theorem extractors_return:
  "extractImportantWords s
     = numericLiterals s @ take 10 (filter capitalizedWord (wholeWords s))
       @ take 5 (filter acronym (wholeWords s))
   \<and> (\<forall>m \<in> set (numericLiterals s). numericLiteral m)
   \<and> length (extractImportantWords (concat (replicate n ''7 ''))) = n
   \<and> (capitalizedWord c \<longrightarrow> extractImportantWords c = [c])
   \<and> extractImportantWords_server s
       = take 50 (filter (\<lambda>w. w \<notin> set stopWords \<and> 3 < length w)
                    (firstOccurrences (plainWords s)))
   \<and> distinct (extractImportantWords_server s)
   \<and> length (extractImportantWords_server s) \<le> 50
   \<and> sorted_wrt (\<lambda>v w. firstIndex (plainWords s) v < firstIndex (plainWords s) w)
        (extractImportantWords_server s)
   \<and> (list_all (\<lambda>c. isLower c \<or> isDigit c) p \<and> 3 < length p \<and> p \<notin> set stopWords
        \<longrightarrow> extractImportantWords_server p = [p])"
proof -
  have client: "extractImportantWords s
     = numericLiterals s @ take 10 (filter capitalizedWord (wholeWords s))
       @ take 5 (filter acronym (wholeWords s))"
    by (rule extractImportantWords_words)
  have literals: "\<forall>m \<in> set (numericLiterals s). numericLiteral m"
    unfolding matchAll_numbers [symmetric] by (blast intro: fits_number matchAll_sound)
  have seven: "\<not> capitalizedWord ''7''" "\<not> acronym ''7''"
    by (simp_all add: capitalizedWord_def acronym_def)
  have uncapped: "length (extractImportantWords (concat (replicate n ''7 ''))) = n"
    using seven
    by (simp add: extractImportantWords_words numericLiterals_sevens wholeWords_sevens)
  have kept: "capitalizedWord c \<longrightarrow> extractImportantWords c = [c]"
    by (simp add: extractImportantWords_capitalized)
  have server: "extractImportantWords_server s
       = take 50 (filter (\<lambda>w. w \<notin> set stopWords \<and> 3 < length w)
                    (firstOccurrences (plainWords s)))"
    by (rule extractImportantWords_server_words)
  have dist: "distinct (extractImportantWords_server s)"
    by (simp add: extractImportantWords_server_def uniqueInOrder_def)
  have cap: "length (extractImportantWords_server s) \<le> 50"
    by (simp add: extractImportantWords_server_def)
  have order: "sorted_wrt (\<lambda>v w. firstIndex (plainWords s) v < firstIndex (plainWords s) w)
        (extractImportantWords_server s)"
    unfolding server
    by (intro sorted_wrt_take sorted_wrt_filter sorted_firstOccurrences)
  have plain: "list_all (\<lambda>c. isLower c \<or> isDigit c) p \<and> 3 < length p \<and> p \<notin> set stopWords
        \<longrightarrow> extractImportantWords_server p = [p]"
    by (simp add: extractImportantWords_server_plain)
  show ?thesis by (intro conjI client literals uncapped kept server dist cap order plain)
qed

theorem extractors_return_witness:
  "numericLiterals ''Hi 3.5 NASA'' = [''3.5'']
   \<and> wholeWords ''Hi 3.5 NASA'' = [''Hi'', ''3'', ''5'', ''NASA'']
   \<and> extractImportantWords ''Hi 3.5 NASA'' = [''3.5'', ''Hi'', ''NASA'']
   \<and> numericLiteral ''3.5''
   \<and> capitalizedWord ''The'' \<and> ''the'' \<in> set stopWords
   \<and> extractImportantWords ''The'' = [''The'']
   \<and> length (extractImportantWords (concat (replicate 60 ''7 ''))) = 60
   \<and> plainWords ''Budget moved 2024, budget MOVED'' = [''budget'', ''moved'', ''2024'', ''budget'', ''moved'']
   \<and> extractImportantWords_server ''Budget moved 2024, budget MOVED'' = [''budget'', ''moved'', ''2024'']
   \<and> list_all (\<lambda>c. isLower c \<or> isDigit c) ''2024'' \<and> 3 < length ''2024''
   \<and> ''2024'' \<notin> set stopWords
   \<and> extractImportantWords_server ''2024'' = [''2024'']"
proof -
  have n: "numericLiterals ''Hi 3.5 NASA'' = [''3.5'']"
    by (simp add: char_class_defs)
  have w: "wholeWords ''Hi 3.5 NASA'' = [''Hi'', ''3'', ''5'', ''NASA'']"
    by (simp add: char_class_defs)
  have f: "filter capitalizedWord [''Hi'', ''3'', ''5'', ''NASA''] = [''Hi'']"
    "filter acronym [''Hi'', ''3'', ''5'', ''NASA''] = [''NASA'']"
    by (simp_all add: capitalizedWord_def acronym_def char_class_defs)
  note client = extractors_return [of "''Hi 3.5 NASA''", unfolded n w f]
  from client have c1: "extractImportantWords ''Hi 3.5 NASA'' = [''3.5'', ''Hi'', ''NASA'']"
    by simp
  from client have c2: "numericLiteral ''3.5''" by simp
  have t: "capitalizedWord ''The''" by (simp add: capitalizedWord_def char_class_defs)
  have st: "''the'' \<in> set stopWords" by (simp add: stopWords_def)
  from extractors_return [where c = "''The''"] t
  have c3: "extractImportantWords ''The'' = [''The'']" by blast
  from extractors_return [where n = 60]
  have c4: "length (extractImportantWords (concat (replicate 60 ''7 ''))) = 60" by blast
  have p: "plainWords ''Budget moved 2024, budget MOVED''
           = [''budget'', ''moved'', ''2024'', ''budget'', ''moved'']"
    by (simp add: plainWords_def toLowerCase_def lowerChar_def latin1Upper_def char_class_defs)
  from extractors_return [of "''Budget moved 2024, budget MOVED''"]
  have "extractImportantWords_server ''Budget moved 2024, budget MOVED''
        = take 50 (filter (\<lambda>w. w \<notin> set stopWords \<and> 3 < length w)
                     (firstOccurrences (plainWords ''Budget moved 2024, budget MOVED'')))"
    by blast
  then have s1: "extractImportantWords_server ''Budget moved 2024, budget MOVED''
        = [''budget'', ''moved'', ''2024'']"
    unfolding p by (simp add: stopWords_def)
  have d: "list_all (\<lambda>c. isLower c \<or> isDigit c) ''2024''" "3 < length ''2024''"
    "''2024'' \<notin> set stopWords"
    by (simp_all add: char_class_defs stopWords_def)
  from extractors_return [where p = "''2024''"] d
  have s2: "extractImportantWords_server ''2024'' = [''2024'']" by blast
  show ?thesis by (intro conjI n w c1 c2 t st c3 c4 p s1 d s2)
qed

end
